theory Spec2Isabelle
  imports Main "HOL-Library.AList"
begin

section \<open>The room relay of server.js\<close>

text \<open>
  The relay keeps three process-wide tables (\<^verbatim>\<open>rooms\<close>, \<^verbatim>\<open>roomCreators\<close>,
  \<^verbatim>\<open>userRooms\<close>) and two mutable tags on every socket object (\<^verbatim>\<open>ws.roomId\<close>,
  \<^verbatim>\<open>ws.username\<close>). The handlers mutate them in place; here every handler takes
  the state and returns the new one.

  \<^item> A socket is identified by a number (the JavaScript code compares sockets by reference).
  \<^item> \<^verbatim>\<open>rooms\<close> is a JavaScript \<^verbatim>\<open>Map\<close> from room identifier to a \<^verbatim>\<open>Set\<close> of
    sockets. Both iterate in insertion order, so the map is an association list and each
    member set is a list; \<^verbatim>\<open>Set.add\<close> appends unless present, \<^verbatim>\<open>Set.delete\<close> removes.
  \<^item> \<^verbatim>\<open>roomCreators\<close> and \<^verbatim>\<open>userRooms\<close> are only looked up, set and deleted by key, so
    they are maps.
  \<^item> A field of an inbound message is \<open>None\<close> when it is missing or \<^verbatim>\<open>null\<close>, and a
    string otherwise (the wire protocol types \<^verbatim>\<open>roomId\<close> and \<^verbatim>\<open>username\<close> as strings).
    JavaScript's \<^verbatim>\<open>!x\<close> holds of a missing field and of the empty string.
  \<^item> What the \<^verbatim>\<open>ws\<close> library does is not part of the repository: the \<open>transport\<close>
    says for every socket its \<^verbatim>\<open>readyState\<close> and whether \<^verbatim>\<open>send\<close> throws.
  \<^item> \<open>sent\<close> is the log of the \<^verbatim>\<open>send\<close> calls that returned, oldest first. The
    \<^verbatim>\<open>timestamp\<close> field that every outbound message carries is left out of the log; the
    \<^verbatim>\<open>serverTimestamp\<close> stamped into a chat payload is kept.
\<close>

type_synonym conn = nat
type_synonym roomId = string
type_synonym username = string

datatype ready_state = CONNECTING | OPEN | CLOSING | CLOSED

record transport =
  readyState :: "conn \<Rightarrow> ready_state"
  send_throws :: "conn \<Rightarrow> bool"

datatype json = JString string | JNumber int

type_synonym payload = "(string \<times> json) list"

datatype server_msg =
    ErrorMsg string "roomId option"
  | RoomCreated roomId username
  | JoinError string roomId
  | JoinSuccess roomId username nat
  | UserJoined roomId username "nat option" bool
  | UserLeft roomId "username option" "nat option" "string option"
  | ChatMsg roomId payload
  | LeaveSuccess roomId
  | Pong

record state =
  rooms :: "(roomId \<times> conn list) list"
  roomCreators :: "roomId \<rightharpoonup> username"
  userRooms :: "conn \<rightharpoonup> roomId"
  ws_roomId :: "conn \<Rightarrow> roomId option"
  ws_username :: "conn \<Rightarrow> username option"
  sent :: "(conn \<times> server_msg) list"

text \<open>A handler either returns or throws; the mutations made before a throw persist.\<close>

datatype outcome = Returned state | Threw state

fun state_of :: "outcome \<Rightarrow> state" where
  "state_of (Returned s) = s"
| "state_of (Threw s) = s"

definition init :: state where
  "init = \<lparr>rooms = [], roomCreators = Map.empty, userRooms = Map.empty,
           ws_roomId = (\<lambda>_. None), ws_username = (\<lambda>_. None), sent = []\<rparr>"

subsection \<open>Map and Set operations\<close>

definition rooms_has :: "state \<Rightarrow> roomId \<Rightarrow> bool" where
  "rooms_has s r = (map_of (rooms s) r \<noteq> None)"

definition rooms_get :: "state \<Rightarrow> roomId \<Rightarrow> conn list option" where
  "rooms_get s r = map_of (rooms s) r"

definition set_add :: "conn \<Rightarrow> conn list \<Rightarrow> conn list" where
  "set_add c xs = (if c \<in> set xs then xs else xs @ [c])"

definition room_add :: "roomId \<Rightarrow> conn \<Rightarrow> state \<Rightarrow> state" where
  "room_add r c s = s\<lparr>rooms := AList.map_entry r (set_add c) (rooms s)\<rparr>"

definition room_delete :: "roomId \<Rightarrow> conn \<Rightarrow> state \<Rightarrow> state" where
  "room_delete r c s = s\<lparr>rooms := AList.map_entry r (removeAll c) (rooms s)\<rparr>"

definition room_size :: "state \<Rightarrow> roomId \<Rightarrow> nat" where
  "room_size s r = (case map_of (rooms s) r of None \<Rightarrow> 0 | Some m \<Rightarrow> length m)"

definition falsy :: "string option \<Rightarrow> bool" where
  "falsy x = (case x of None \<Rightarrow> True | Some v \<Rightarrow> v = [])"

subsection \<open>Sending and broadcasting\<close>

definition ws_send :: "transport \<Rightarrow> conn \<Rightarrow> server_msg \<Rightarrow> state \<Rightarrow> outcome" where
  "ws_send tr c m s =
     (if send_throws tr c then Threw s else Returned (s\<lparr>sent := sent s @ [(c, m)]\<rparr>))"

text \<open>
  \<^verbatim>\<open>broadcastToRoom\<close>: the body of \<^verbatim>\<open>room.forEach\<close> for one client, then the loop over
  the members. The loop only ever deletes the member it is visiting, so it visits exactly
  the members the set had when the loop started.
\<close>

definition broadcast_one ::
  "transport \<Rightarrow> roomId \<Rightarrow> server_msg \<Rightarrow> conn option \<Rightarrow> conn \<Rightarrow> state \<Rightarrow> state" where
  "broadcast_one tr r m excludeWs client s =
     (if Some client \<noteq> excludeWs \<and> readyState tr client = OPEN then
        (case ws_send tr client m s of
           Returned s' \<Rightarrow> s'
         | Threw s' \<Rightarrow> (room_delete r client s')\<lparr>userRooms := (userRooms s')(client := None)\<rparr>)
      else s)"

fun broadcast_loop ::
  "transport \<Rightarrow> roomId \<Rightarrow> server_msg \<Rightarrow> conn option \<Rightarrow> conn list \<Rightarrow> state \<Rightarrow> state" where
  "broadcast_loop tr r m excludeWs [] s = s"
| "broadcast_loop tr r m excludeWs (client # cs) s =
     broadcast_loop tr r m excludeWs cs (broadcast_one tr r m excludeWs client s)"

definition broadcastToRoom ::
  "transport \<Rightarrow> roomId \<Rightarrow> server_msg \<Rightarrow> conn option \<Rightarrow> state \<Rightarrow> state" where
  "broadcastToRoom tr r m excludeWs s =
     (case map_of (rooms s) r of
        None \<Rightarrow> s
      | Some room \<Rightarrow> broadcast_loop tr r m excludeWs room s)"

subsection \<open>The handlers\<close>

text \<open>The part of \<^verbatim>\<open>handleCreateRoom\<close> and \<^verbatim>\<open>handleJoinRoom\<close> that leaves the previous room.\<close>

definition leave_previous ::
  "transport \<Rightarrow> conn \<Rightarrow> username \<Rightarrow> (roomId \<Rightarrow> bool) \<Rightarrow> state \<Rightarrow> state" where
  "leave_previous tr ws u skip s =
     (case userRooms s ws of
        None \<Rightarrow> s
      | Some previousRoomId \<Rightarrow>
          if rooms_has s previousRoomId \<and> \<not> skip previousRoomId then
            broadcastToRoom tr previousRoomId (UserLeft previousRoomId (Some u) None None)
              (Some ws) (room_delete previousRoomId ws s)
          else s)"

definition bind_tags :: "conn \<Rightarrow> roomId \<Rightarrow> username \<Rightarrow> state \<Rightarrow> state" where
  "bind_tags ws r u s =
     s\<lparr>userRooms := (userRooms s)(ws \<mapsto> r),
       ws_roomId := (ws_roomId s)(ws := Some r),
       ws_username := (ws_username s)(ws := Some u)\<rparr>"

definition create_room_body :: "transport \<Rightarrow> conn \<Rightarrow> roomId \<Rightarrow> username \<Rightarrow> state \<Rightarrow> outcome" where
  "create_room_body tr ws r u s0 =
     (let s1 = (if \<not> rooms_has s0 r
                then s0\<lparr>rooms := AList.update r [] (rooms s0),
                        roomCreators := (roomCreators s0)(r \<mapsto> u)\<rparr>
                else s0);
          s2 = leave_previous tr ws u (\<lambda>_. False) s1
      in if \<not> rooms_has s2 r then Threw s2
         else
           (case ws_send tr ws (RoomCreated r u) (bind_tags ws r u (room_add r ws s2)) of
              Threw s4 \<Rightarrow> Threw s4
            | Returned s4 \<Rightarrow>
                Returned (broadcastToRoom tr r (UserJoined r u None True) (Some ws) s4)))"

definition handleCreateRoom ::
  "transport \<Rightarrow> conn \<Rightarrow> string option \<Rightarrow> string option \<Rightarrow> state \<Rightarrow> outcome" where
  "handleCreateRoom tr ws roomId username s =
     (case (roomId, username) of
        (Some r, Some u) \<Rightarrow>
          if r = [] \<or> u = []
          then ws_send tr ws (ErrorMsg ''Room ID and username are required'' roomId) s
          else create_room_body tr ws r u s
      | _ \<Rightarrow> ws_send tr ws (ErrorMsg ''Room ID and username are required'' roomId) s)"

text \<open>The loop of \<^verbatim>\<open>handleJoinRoom\<close> that looks for the name among the members.\<close>

fun name_taken :: "state \<Rightarrow> conn \<Rightarrow> username \<Rightarrow> conn list \<Rightarrow> bool" where
  "name_taken s ws u [] = False"
| "name_taken s ws u (client # cs) =
     (if ws_username s client = Some u \<and> client \<noteq> ws then True else name_taken s ws u cs)"

definition join_room_body :: "transport \<Rightarrow> conn \<Rightarrow> roomId \<Rightarrow> username \<Rightarrow> state \<Rightarrow> outcome" where
  "join_room_body tr ws r u s0 =
     (case rooms_get s0 r of
        None \<Rightarrow> ws_send tr ws (JoinError ''Room not found'' r) s0
      | Some room \<Rightarrow>
          if name_taken s0 ws u room
          then ws_send tr ws (JoinError ''Username already taken in this room'' r) s0
          else
            (let s2 = leave_previous tr ws u (\<lambda>p. p = r) s0;
                 s3 = bind_tags ws r u (room_add r ws s2)
             in case ws_send tr ws (JoinSuccess r u (room_size s3 r)) s3 of
                  Threw s4 \<Rightarrow> Threw s4
                | Returned s4 \<Rightarrow>
                    Returned (broadcastToRoom tr r
                      (UserJoined r u (Some (room_size s4 r)) False) (Some ws) s4)))"

definition handleJoinRoom ::
  "transport \<Rightarrow> conn \<Rightarrow> string option \<Rightarrow> string option \<Rightarrow> state \<Rightarrow> outcome" where
  "handleJoinRoom tr ws roomId username s =
     (case (roomId, username) of
        (Some r, Some u) \<Rightarrow>
          if r = [] \<or> u = []
          then ws_send tr ws (ErrorMsg ''Room ID and username are required'' roomId) s
          else join_room_body tr ws r u s
      | _ \<Rightarrow> ws_send tr ws (ErrorMsg ''Room ID and username are required'' roomId) s)"

text \<open>
  \<^verbatim>\<open>handleChatMessage\<close>. \<open>now\<close> is the reading of \<^verbatim>\<open>Date.now()\<close> that becomes
  \<^verbatim>\<open>serverTimestamp\<close>. The payload is an object, a list of fields; the spread
  \<^verbatim>\<open>{...chatMessage, serverTimestamp: ..., roomId: ...}\<close> overwrites a field of that name
  and appends it otherwise. \<open>None\<close> is a missing (or otherwise falsy) payload.
\<close>

definition enhancedMessage :: "nat \<Rightarrow> roomId \<Rightarrow> payload \<Rightarrow> payload" where
  "enhancedMessage now r chatMessage =
     AList.update ''roomId'' (JString r)
       (AList.update ''serverTimestamp'' (JNumber (int now)) chatMessage)"

definition handleChatMessage ::
  "transport \<Rightarrow> nat \<Rightarrow> conn \<Rightarrow> string option \<Rightarrow> payload option \<Rightarrow> state \<Rightarrow> outcome" where
  "handleChatMessage tr now ws roomId chatMessage s =
     (case (roomId, chatMessage) of
        (Some r, Some p) \<Rightarrow>
          if r = []
          then ws_send tr ws (ErrorMsg ''Room ID and message are required'' None) s
          else if \<not> rooms_has s r \<or> \<not> (case rooms_get s r of None \<Rightarrow> False | Some room \<Rightarrow> ws \<in> set room)
          then ws_send tr ws (ErrorMsg ''You are not in this room'' (Some r)) s
          else Returned (broadcastToRoom tr r (ChatMsg r (enhancedMessage now r p)) (Some ws) s)
      | _ \<Rightarrow> ws_send tr ws (ErrorMsg ''Room ID and message are required'' None) s)"

definition handleLeaveRoom :: "transport \<Rightarrow> conn \<Rightarrow> string option \<Rightarrow> state \<Rightarrow> outcome" where
  "handleLeaveRoom tr ws msg_roomId s =
     (case (if falsy msg_roomId then ws_roomId s ws else msg_roomId) of
        None \<Rightarrow> Returned s
      | Some r \<Rightarrow>
          if r \<noteq> [] \<and> rooms_has s r then
            (let u = ws_username s ws;
                 s1 = (room_delete r ws s)\<lparr>userRooms := (userRooms s)(ws := None)\<rparr>;
                 s2 = broadcastToRoom tr r (UserLeft r u (Some (room_size s1 r)) None) None s1;
                 s3 = s2\<lparr>ws_roomId := (ws_roomId s2)(ws := None),
                         ws_username := (ws_username s2)(ws := None)\<rparr>
             in ws_send tr ws (LeaveSuccess r) s3)
          else Returned s)"

definition handleUserDisconnect :: "transport \<Rightarrow> conn \<Rightarrow> state \<Rightarrow> state" where
  "handleUserDisconnect tr ws s =
     (case ws_roomId s ws of
        None \<Rightarrow> s
      | Some r \<Rightarrow>
          if r \<noteq> [] \<and> rooms_has s r then
            (let s1 = (room_delete r ws s)\<lparr>userRooms := (userRooms s)(ws := None)\<rparr>
             in if \<not> falsy (ws_username s ws)
                then broadcastToRoom tr r
                       (UserLeft r (ws_username s ws) (Some (room_size s1 r)) (Some ''disconnected''))
                       None s1
                else s1)
          else s)"

subsection \<open>Dispatch, the reaper, and the runs of the server\<close>

datatype client_msg =
    CreateRoomMsg "string option" "string option"
  | JoinRoomMsg "string option" "string option"
  | ChatMessageMsg "string option" "payload option"
  | LeaveRoomMsg "string option"
  | PingMsg
  | UnknownMsg

fun handleMessage :: "transport \<Rightarrow> nat \<Rightarrow> conn \<Rightarrow> client_msg \<Rightarrow> state \<Rightarrow> outcome" where
  "handleMessage tr now ws (CreateRoomMsg r u) s = handleCreateRoom tr ws r u s"
| "handleMessage tr now ws (JoinRoomMsg r u) s = handleJoinRoom tr ws r u s"
| "handleMessage tr now ws (ChatMessageMsg r p) s = handleChatMessage tr now ws r p s"
| "handleMessage tr now ws (LeaveRoomMsg r) s = handleLeaveRoom tr ws r s"
| "handleMessage tr now ws PingMsg s = ws_send tr ws Pong s"
| "handleMessage tr now ws UnknownMsg s = ws_send tr ws (ErrorMsg ''Unknown message type'' None) s"

text \<open>
  The \<^verbatim>\<open>message\<close> listener: \<open>None\<close> is data that \<^verbatim>\<open>JSON.parse\<close> rejects. Whatever the
  \<^verbatim>\<open>try\<close> block throws is answered with an error message; when that \<^verbatim>\<open>send\<close> throws
  too, the exception leaves the listener.
\<close>

definition on_message :: "transport \<Rightarrow> nat \<Rightarrow> conn \<Rightarrow> client_msg option \<Rightarrow> state \<Rightarrow> outcome" where
  "on_message tr now ws data s =
     (case data of
        None \<Rightarrow> ws_send tr ws (ErrorMsg ''Invalid message format'' None) s
      | Some message \<Rightarrow>
          (case handleMessage tr now ws message s of
             Returned s' \<Rightarrow> Returned s'
           | Threw s' \<Rightarrow> ws_send tr ws (ErrorMsg ''Invalid message format'' None) s'))"

text \<open>
  The \<^verbatim>\<open>setInterval\<close> callback: the loop over the entries of \<^verbatim>\<open>rooms\<close>. It deletes
  only the entry it is visiting, so it visits the entries the map had at the start.
\<close>

fun reaper_loop :: "(roomId \<times> conn list) list \<Rightarrow> state \<Rightarrow> state" where
  "reaper_loop [] s = s"
| "reaper_loop ((r, clients) # es) s =
     reaper_loop es
       (if length clients = 0
        then s\<lparr>rooms := AList.delete r (rooms s), roomCreators := (roomCreators s)(r := None)\<rparr>
        else s)"

definition reaper :: "state \<Rightarrow> state" where
  "reaper s = reaper_loop (rooms s) s"

datatype event = Message conn "client_msg option" | Close conn | Sweep

fun step :: "transport \<Rightarrow> nat \<Rightarrow> event \<Rightarrow> state \<Rightarrow> outcome" where
  "step tr now (Message ws data) s = on_message tr now ws data s"
| "step tr now (Close ws) s = Returned (handleUserDisconnect tr ws s)"
| "step tr now Sweep s = Returned (reaper s)"

text \<open>
  The states the server can be in: it starts with empty tables, and every event that is
  handled without an uncaught exception leads to the next state. The transport and the
  clock are the environment's and may differ from one event to the next.
\<close>

inductive reachable :: "state \<Rightarrow> bool" where
  reachable_init: "reachable init"
| reachable_step: "reachable s \<Longrightarrow> step tr now ev s = Returned s' \<Longrightarrow> reachable s'"

text \<open>A run of the server: the events are handled one after the other, until one throws.\<close>

fun run :: "(transport \<times> nat \<times> event) list \<Rightarrow> state \<Rightarrow> outcome" where
  "run [] s = Returned s"
| "run ((tr, now, ev) # es) s =
     (case step tr now ev s of Returned s' \<Rightarrow> run es s' | Threw s' \<Rightarrow> Threw s')"

subsection \<open>Notions used to state the properties\<close>

text \<open>
  The member list of a room (empty when there is no such room), and the two ways the guard
  and the \<^verbatim>\<open>try\<close> block of \<^verbatim>\<open>broadcastToRoom\<close> treat a member: the message is
  delivered to it, or its \<^verbatim>\<open>send\<close> throws and it is pruned. A member that is neither
  (the excluded sender, or a socket that is not open) is skipped.
\<close>

definition members :: "state \<Rightarrow> roomId \<Rightarrow> conn list" where
  "members s r = (case map_of (rooms s) r of None \<Rightarrow> [] | Some room \<Rightarrow> room)"

definition deliverable :: "transport \<Rightarrow> conn option \<Rightarrow> conn \<Rightarrow> bool" where
  "deliverable tr excludeWs c =
     (Some c \<noteq> excludeWs \<and> readyState tr c = OPEN \<and> \<not> send_throws tr c)"

definition pruned :: "transport \<Rightarrow> conn option \<Rightarrow> conn \<Rightarrow> bool" where
  "pruned tr excludeWs c =
     (Some c \<noteq> excludeWs \<and> readyState tr c = OPEN \<and> send_throws tr c)"

text \<open>
  The \<^verbatim>\<open>user_left\<close> notices that \<open>leave_previous\<close> sends to the room the socket was
  bound to.
\<close>

definition left_notices ::
  "transport \<Rightarrow> conn \<Rightarrow> username \<Rightarrow> (roomId \<Rightarrow> bool) \<Rightarrow> state \<Rightarrow> (conn \<times> server_msg) list" where
  "left_notices tr ws u skip s =
     (case userRooms s ws of
        None \<Rightarrow> []
      | Some p \<Rightarrow>
          if rooms_has s p \<and> \<not> skip p
          then map (\<lambda>c. (c, UserLeft p (Some u) None None))
                 (filter (deliverable tr (Some ws)) (removeAll ws (members s p)))
          else [])"

text \<open>
  What the relay keeps true of a socket \<open>c\<close>: when \<^verbatim>\<open>userRooms\<close> binds it to a room, it
  is in the member set of that room and \<^verbatim>\<open>ws.roomId\<close> names the same, non-empty, room.
  \<open>relay_inv\<close> asks this of every socket, and that \<^verbatim>\<open>rooms\<close> has no key twice;
  \<open>relay_inv_but ws\<close> leaves the socket \<open>ws\<close> out, as is the case between the two halves
  of a change of room.
\<close>

definition bound_ok :: "state \<Rightarrow> conn \<Rightarrow> bool" where
  "bound_ok s c =
     (case userRooms s c of
        None \<Rightarrow> True
      | Some r \<Rightarrow> c \<in> set (members s r) \<and> ws_roomId s c = Some r \<and> r \<noteq> [])"

definition relay_inv :: "state \<Rightarrow> bool" where
  "relay_inv s = (distinct (map fst (rooms s)) \<and> (\<forall>c. bound_ok s c))"

definition relay_inv_but :: "conn \<Rightarrow> state \<Rightarrow> bool" where
  "relay_inv_but ws s = (distinct (map fst (rooms s)) \<and> (\<forall>c. c \<noteq> ws \<longrightarrow> bound_ok s c))"

text \<open>The messages a run of the handler has added to the log.\<close>

definition new_msgs :: "state \<Rightarrow> state \<Rightarrow> (conn \<times> server_msg) list" where
  "new_msgs s s' = drop (length (sent s)) (sent s')"

subsection \<open>Example transports and states\<close>

text \<open>
  \<open>tr_ok\<close>: every socket is open and every \<^verbatim>\<open>send\<close> returns. \<open>tr_bad\<close>: the \<^verbatim>\<open>send\<close> of
  socket 2 throws and socket 3 is closed. \<open>s_demo\<close>: room A with the members 1, 2, 3 and
  room B with the member 4.
\<close>

definition tr_ok :: transport where
  "tr_ok = \<lparr>readyState = (\<lambda>_. OPEN), send_throws = (\<lambda>_. False)\<rparr>"

definition tr_bad :: transport where
  "tr_bad = \<lparr>readyState = (\<lambda>c. if c = 3 then CLOSED else OPEN), send_throws = (\<lambda>c. c = 2)\<rparr>"

definition s_demo :: state where
  "s_demo =
     \<lparr>rooms = [(''A'', [1, 2, 3]), (''B'', [4])],
      roomCreators = [''A'' \<mapsto> ''al'', ''B'' \<mapsto> ''di''],
      userRooms = [1 \<mapsto> ''A'', 2 \<mapsto> ''A'', 3 \<mapsto> ''A'', 4 \<mapsto> ''B''],
      ws_roomId = (\<lambda>_. None)(1 := Some ''A'', 2 := Some ''A'', 3 := Some ''A'', 4 := Some ''B''),
      ws_username = (\<lambda>_. None)(1 := Some ''al'', 2 := Some ''bo'', 3 := Some ''cy'', 4 := Some ''di''),
      sent = []\<rparr>"

text \<open>\<open>s_swept\<close>: room A with the member 1 and room B with no member.\<close>

definition s_swept :: state where
  "s_swept =
     \<lparr>rooms = [(''A'', [1]), (''B'', [])],
      roomCreators = [''A'' \<mapsto> ''al'', ''B'' \<mapsto> ''di''],
      userRooms = [1 \<mapsto> ''A''],
      ws_roomId = (\<lambda>_. None)(1 := Some ''A''),
      ws_username = (\<lambda>_. None)(1 := Some ''al''),
      sent = []\<rparr>"


text \<open>
  Three runs from the initial state. \<open>two_rooms\<close>: socket 1 creates room A as \<open>al\<close> and
  socket 2 creates room B as \<open>bo\<close>; \<open>s_two_rooms\<close> is the state after it. \<open>foreign_leave\<close>:
  then socket 1 sends \<^verbatim>\<open>leave_room\<close> naming room B, and later disconnects. \<open>same_name\<close>:
  socket 1 creates room A as \<open>al\<close>, and socket 2 sends \<^verbatim>\<open>create_room\<close> for room A as
  \<open>al\<close> too.
\<close>

definition two_rooms :: "(transport \<times> nat \<times> event) list" where
  "two_rooms =
     [(tr_ok, 0, Message 1 (Some (CreateRoomMsg (Some ''A'') (Some ''al'')))),
      (tr_ok, 0, Message 2 (Some (CreateRoomMsg (Some ''B'') (Some ''bo''))))]"

definition s_two_rooms :: state where
  "s_two_rooms =
     \<lparr>rooms = [(''A'', [1]), (''B'', [2])],
      roomCreators = [''A'' \<mapsto> ''al'', ''B'' \<mapsto> ''bo''],
      userRooms = [1 \<mapsto> ''A'', 2 \<mapsto> ''B''],
      ws_roomId = (\<lambda>_. None)(1 := Some ''A'', 2 := Some ''B''),
      ws_username = (\<lambda>_. None)(1 := Some ''al'', 2 := Some ''bo''),
      sent = [(1, RoomCreated ''A'' ''al''), (2, RoomCreated ''B'' ''bo'')]\<rparr>"

definition foreign_leave :: "(transport \<times> nat \<times> event) list" where
  "foreign_leave =
     [(tr_ok, 0, Message 1 (Some (LeaveRoomMsg (Some ''B'')))),
      (tr_ok, 0, Close 1)]"

definition same_name :: "(transport \<times> nat \<times> event) list" where
  "same_name =
     [(tr_ok, 0, Message 1 (Some (CreateRoomMsg (Some ''A'') (Some ''al'')))),
      (tr_ok, 0, Message 2 (Some (CreateRoomMsg (Some ''A'') (Some ''al''))))]"

text \<open>
  \<open>s_ghost\<close> is the state after \<open>two_rooms\<close> and \<open>foreign_leave\<close>, and \<open>s_same_name\<close> the
  state after \<open>same_name\<close>.
\<close>

definition s_ghost :: state where
  "s_ghost =
     \<lparr>rooms = [(''A'', [1]), (''B'', [2])],
      roomCreators = [''A'' \<mapsto> ''al'', ''B'' \<mapsto> ''bo''],
      userRooms = [2 \<mapsto> ''B''],
      ws_roomId = (\<lambda>_. None)(2 := Some ''B''),
      ws_username = (\<lambda>_. None)(2 := Some ''bo''),
      sent = [(1, RoomCreated ''A'' ''al''), (2, RoomCreated ''B'' ''bo''),
              (2, UserLeft ''B'' (Some ''al'') (Some 1) None), (1, LeaveSuccess ''B'')]\<rparr>"

definition s_same_name :: state where
  "s_same_name =
     \<lparr>rooms = [(''A'', [1, 2])],
      roomCreators = [''A'' \<mapsto> ''al''],
      userRooms = [1 \<mapsto> ''A'', 2 \<mapsto> ''A''],
      ws_roomId = (\<lambda>_. None)(1 := Some ''A'', 2 := Some ''A''),
      ws_username = (\<lambda>_. None)(1 := Some ''al'', 2 := Some ''al''),
      sent = [(1, RoomCreated ''A'' ''al''), (2, RoomCreated ''A'' ''al''),
              (1, UserJoined ''A'' ''al'' None True)]\<rparr>"

section \<open>Properties\<close>

subsection \<open>Association lists\<close>

lemma map_entry_comp:
  "AList.map_entry k f (AList.map_entry k g xs) = AList.map_entry k (f \<circ> g) xs"
  by (induction xs) auto

lemma map_entry_cong_fun:
  "(\<And>v. f v = g v) \<Longrightarrow> AList.map_entry k f xs = AList.map_entry k g xs"
  by (induction xs) auto

lemma map_entry_ident: "AList.map_entry k (\<lambda>v. v) xs = xs"
  by (induction xs) auto

lemma map_entry_cong_at:
  "(\<And>v. map_of xs k = Some v \<Longrightarrow> f v = g v) \<Longrightarrow> AList.map_entry k f xs = AList.map_entry k g xs"
  by (induction xs) auto

subsection \<open>What a broadcast does to each component of the state\<close>

lemma broadcast_one_rooms:
  "rooms (broadcast_one tr r m ex c s) =
     (if pruned tr ex c then AList.map_entry r (removeAll c) (rooms s) else rooms s)"
  by (auto simp: broadcast_one_def ws_send_def room_delete_def pruned_def)

lemma broadcast_one_userRooms:
  "userRooms (broadcast_one tr r m ex c s) =
     (if pruned tr ex c then (userRooms s)(c := None) else userRooms s)"
  by (auto simp: broadcast_one_def ws_send_def room_delete_def pruned_def)

lemma broadcast_one_sent:
  "sent (broadcast_one tr r m ex c s) =
     (if deliverable tr ex c then sent s @ [(c, m)] else sent s)"
  by (auto simp: broadcast_one_def ws_send_def room_delete_def deliverable_def)

lemma broadcast_one_other:
  "roomCreators (broadcast_one tr r m ex c s) = roomCreators s"
  "ws_roomId (broadcast_one tr r m ex c s) = ws_roomId s"
  "ws_username (broadcast_one tr r m ex c s) = ws_username s"
  by (auto simp: broadcast_one_def ws_send_def room_delete_def)

lemma broadcast_loop_rooms:
  "rooms (broadcast_loop tr r m ex cs s) =
     AList.map_entry r (filter (\<lambda>x. \<not> (x \<in> set cs \<and> pruned tr ex x))) (rooms s)"
proof (induction cs arbitrary: s)
  case Nil
  show ?case by (simp add: map_entry_ident)
next
  case (Cons c cs)
  show ?case
  proof (cases "pruned tr ex c")
    case True
    have "AList.map_entry r (filter (\<lambda>x. \<not> (x \<in> set cs \<and> pruned tr ex x)) \<circ> removeAll c) (rooms s)
          = AList.map_entry r (filter (\<lambda>x. \<not> (x \<in> set (c # cs) \<and> pruned tr ex x))) (rooms s)"
      using True by (intro map_entry_cong_fun) (auto simp: removeAll_filter_not_eq intro: filter_cong)
    then show ?thesis using True
      by (simp only: broadcast_loop.simps Cons.IH broadcast_one_rooms map_entry_comp if_True)
  next
    case False
    have "AList.map_entry r (filter (\<lambda>x. \<not> (x \<in> set cs \<and> pruned tr ex x))) (rooms s)
          = AList.map_entry r (filter (\<lambda>x. \<not> (x \<in> set (c # cs) \<and> pruned tr ex x))) (rooms s)"
      using False by (intro map_entry_cong_fun) (auto intro: filter_cong)
    then show ?thesis using False
      by (simp only: broadcast_loop.simps Cons.IH broadcast_one_rooms if_False)
  qed
qed

lemma broadcast_loop_userRooms:
  "userRooms (broadcast_loop tr r m ex cs s) =
     (\<lambda>x. if x \<in> set cs \<and> pruned tr ex x then None else userRooms s x)"
  by (induction cs arbitrary: s) (auto simp: broadcast_one_userRooms fun_eq_iff)

lemma broadcast_loop_sent:
  "sent (broadcast_loop tr r m ex cs s) =
     sent s @ map (\<lambda>x. (x, m)) (filter (deliverable tr ex) cs)"
  by (induction cs arbitrary: s) (auto simp: broadcast_one_sent)

lemma broadcast_loop_other:
  "roomCreators (broadcast_loop tr r m ex cs s) = roomCreators s"
  "ws_roomId (broadcast_loop tr r m ex cs s) = ws_roomId s"
  "ws_username (broadcast_loop tr r m ex cs s) = ws_username s"
  by (induction cs arbitrary: s) (auto simp: broadcast_one_other)

lemma broadcastToRoom_rooms:
  "rooms (broadcastToRoom tr r m ex s) =
     AList.map_entry r (filter (\<lambda>x. \<not> pruned tr ex x)) (rooms s)"
proof (cases "map_of (rooms s) r")
  case None
  have "AList.map_entry r (filter (\<lambda>x. \<not> pruned tr ex x)) (rooms s) = AList.map_entry r (\<lambda>v. v) (rooms s)"
    using None by (intro map_entry_cong_at) simp
  then show ?thesis using None by (simp add: broadcastToRoom_def map_entry_ident)
next
  case (Some room)
  have "AList.map_entry r (filter (\<lambda>x. \<not> (x \<in> set room \<and> pruned tr ex x))) (rooms s)
        = AList.map_entry r (filter (\<lambda>x. \<not> pruned tr ex x)) (rooms s)"
    using Some by (intro map_entry_cong_at) (auto intro: filter_cong)
  then show ?thesis using Some by (simp add: broadcastToRoom_def broadcast_loop_rooms)
qed

lemma broadcastToRoom_userRooms:
  "userRooms (broadcastToRoom tr r m ex s) =
     (\<lambda>x. if x \<in> set (members s r) \<and> pruned tr ex x then None else userRooms s x)"
  by (auto simp: broadcastToRoom_def members_def broadcast_loop_userRooms split: option.splits)

lemma broadcastToRoom_sent:
  "sent (broadcastToRoom tr r m ex s) =
     sent s @ map (\<lambda>x. (x, m)) (filter (deliverable tr ex) (members s r))"
  by (auto simp: broadcastToRoom_def members_def broadcast_loop_sent split: option.splits)

lemma broadcastToRoom_other:
  "roomCreators (broadcastToRoom tr r m ex s) = roomCreators s"
  "ws_roomId (broadcastToRoom tr r m ex s) = ws_roomId s"
  "ws_username (broadcastToRoom tr r m ex s) = ws_username s"
  by (auto simp: broadcastToRoom_def broadcast_loop_other split: option.splits)

lemma broadcastToRoom_members:
  "members (broadcastToRoom tr r m ex s) q =
     (if q = r then filter (\<lambda>x. \<not> pruned tr ex x) (members s r) else members s q)"
  by (auto simp: members_def broadcastToRoom_rooms map_of_map_entry split: option.splits)

lemma broadcastToRoom_has:
  "rooms_has (broadcastToRoom tr r m ex s) q = rooms_has s q"
  by (auto simp: rooms_has_def broadcastToRoom_rooms map_of_map_entry split: option.splits)

lemma members_Some: "rooms_get s r = Some room \<Longrightarrow> members s r = room"
  by (simp add: members_def rooms_get_def)

subsection \<open>Broadcast: pruning, no abort\<close>

text \<open>
  Claim C6, as the code has it. A broadcast to an existing room removes from the member
  set, and unbinds in \<open>userRooms\<close>, exactly the members other than the excluded sender whose
  socket is open and whose \<^verbatim>\<open>send\<close> throws; every other member, a member whose socket is
  not open among them, stays in the set and keeps its binding. The message reaches every
  member other than the excluded sender whose socket is open and whose \<^verbatim>\<open>send\<close> returns,
  whatever happens at the members before it in the set: a failure does not end the fan-out.
  \<open>broadcastToRoom\<close> returns a state and never throws, since the only call that can throw is
  inside its \<^verbatim>\<open>try\<close> block. A pruned member gets no message from any later broadcast to
  that room.
\<close>

theorem broadcast_prunes_throwing_members:
  assumes "rooms_get s r = Some room"
  shows "rooms_get (broadcastToRoom tr r m ex s) r = Some (filter (\<lambda>c. \<not> pruned tr ex c) room)
       \<and> (\<forall>c \<in> set room. userRooms (broadcastToRoom tr r m ex s) c
              = (if pruned tr ex c then None else userRooms s c))
       \<and> sent (broadcastToRoom tr r m ex s)
           = sent s @ map (\<lambda>c. (c, m)) (filter (deliverable tr ex) room)
       \<and> (\<forall>c \<in> set room. pruned tr ex c \<longrightarrow>
            (\<forall>tr' m' ex'. c \<notin> fst ` set (new_msgs (broadcastToRoom tr r m ex s)
                 (broadcastToRoom tr' r m' ex' (broadcastToRoom tr r m ex s)))))"
proof -
  have mem: "members s r = room" using assms by (rule members_Some)
  have 1: "rooms_get (broadcastToRoom tr r m ex s) r = Some (filter (\<lambda>c. \<not> pruned tr ex c) room)"
    using assms by (simp add: rooms_get_def broadcastToRoom_rooms map_of_map_entry)
  have 2: "\<forall>c \<in> set room. userRooms (broadcastToRoom tr r m ex s) c
              = (if pruned tr ex c then None else userRooms s c)"
    by (simp add: broadcastToRoom_userRooms mem)
  have 3: "sent (broadcastToRoom tr r m ex s)
           = sent s @ map (\<lambda>c. (c, m)) (filter (deliverable tr ex) room)"
    by (simp add: broadcastToRoom_sent mem)
  have 4: "\<forall>c \<in> set room. pruned tr ex c \<longrightarrow>
            (\<forall>tr' m' ex'. c \<notin> fst ` set (new_msgs (broadcastToRoom tr r m ex s)
                 (broadcastToRoom tr' r m' ex' (broadcastToRoom tr r m ex s))))"
    by (auto simp: new_msgs_def broadcastToRoom_sent broadcastToRoom_members mem)
  from 1 2 3 4 show ?thesis by blast
qed

text \<open>
  The theorem at room A of \<open>s_demo\<close> with socket 1 excluded: socket 2, whose \<^verbatim>\<open>send\<close>
  throws, is pruned; socket 3, which is closed, stays; nobody is left to receive the message.
\<close>

theorem broadcast_prunes_throwing_members_witness:
  "rooms_get s_demo ''A'' = Some [1, 2, 3]
   \<and> pruned tr_bad (Some 1) 2
   \<and> rooms_get (broadcastToRoom tr_bad ''A'' Pong (Some 1) s_demo) ''A'' = Some [1, 3]
   \<and> userRooms (broadcastToRoom tr_bad ''A'' Pong (Some 1) s_demo) 2 = None
   \<and> userRooms (broadcastToRoom tr_bad ''A'' Pong (Some 1) s_demo) 3 = Some ''A''
   \<and> sent (broadcastToRoom tr_bad ''A'' Pong (Some 1) s_demo) = []
   \<and> 2 \<notin> fst ` set (new_msgs (broadcastToRoom tr_bad ''A'' Pong (Some 1) s_demo)
          (broadcastToRoom tr_ok ''A'' Pong None (broadcastToRoom tr_bad ''A'' Pong (Some 1) s_demo)))"
proof -
  have h: "rooms_get s_demo ''A'' = Some [1, 2, 3]"
    by (simp add: rooms_get_def s_demo_def)
  have p: "pruned tr_bad (Some 1) 2" by (simp add: pruned_def tr_bad_def)
  have u: "userRooms s_demo 3 = Some ''A''" by (simp add: s_demo_def)
  have e: "sent s_demo = []" by (simp add: s_demo_def)
  show ?thesis
    using broadcast_prunes_throwing_members [OF h, of tr_bad Pong "Some 1"] h p u e
    by (simp add: pruned_def deliverable_def tr_bad_def)
qed

text \<open>
  Claim C6 as the specification words it fails: a member whose channel is not open is
  skipped by the guard of the loop, not removed. Socket 3 is closed, is a member of room A
  before the broadcast, and is still a member and still bound after it.
\<close>

theorem closed_member_is_not_pruned:
  "readyState tr_bad 3 \<noteq> OPEN
   \<and> 3 \<in> set (members s_demo ''A'')
   \<and> 3 \<in> set (members (broadcastToRoom tr_bad ''A'' Pong (Some 1) s_demo) ''A'')
   \<and> userRooms (broadcastToRoom tr_bad ''A'' Pong (Some 1) s_demo) 3 = Some ''A''"
proof -
  have m: "members s_demo ''A'' = [1, 2, 3]" by (simp add: members_def s_demo_def)
  have u: "userRooms s_demo 3 = Some ''A''" by (simp add: s_demo_def)
  show ?thesis
    by (simp add: broadcastToRoom_members broadcastToRoom_userRooms m u pruned_def tr_bad_def)
qed

subsection \<open>The reaper\<close>

lemma reaper_loop_rooms:
  "map_of (rooms (reaper_loop es s)) r = (if (r, []) \<in> set es then None else map_of (rooms s) r)"
  by (induction es s rule: reaper_loop.induct) (auto simp: AList.delete_conv')

lemma reaper_loop_creators:
  "roomCreators (reaper_loop es s) r = (if (r, []) \<in> set es then None else roomCreators s r)"
  by (induction es s rule: reaper_loop.induct) auto

lemma reaper_loop_other:
  "userRooms (reaper_loop es s) = userRooms s"
  "ws_roomId (reaper_loop es s) = ws_roomId s"
  "ws_username (reaper_loop es s) = ws_username s"
  "sent (reaper_loop es s) = sent s"
  by (induction es s rule: reaper_loop.induct) auto

text \<open>
  Claim C9. \<^verbatim>\<open>rooms\<close> is a \<^verbatim>\<open>Map\<close>, so no key occurs twice in it. A sweep deletes a room
  and its creator record if and only if the room's member set is empty when the sweep runs;
  every other room keeps its members and its creator record, so a room with at least one
  member is never deleted.
\<close>

theorem reaper_deletes_exactly_empty_rooms:
  assumes "distinct (map fst (rooms s))"
  shows "rooms_get (reaper s) r = (if rooms_get s r = Some [] then None else rooms_get s r)
       \<and> roomCreators (reaper s) r = (if rooms_get s r = Some [] then None else roomCreators s r)
       \<and> (rooms_has s r \<longrightarrow> (rooms_has (reaper s) r \<longleftrightarrow> members s r \<noteq> []))
       \<and> (members s r \<noteq> [] \<longrightarrow> members (reaper s) r = members s r)"
proof -
  have in_set: "((r, []) \<in> set (rooms s)) = (rooms_get s r = Some [])"
    using assms by (simp add: rooms_get_def)
  have 1: "rooms_get (reaper s) r = (if rooms_get s r = Some [] then None else rooms_get s r)"
    unfolding reaper_def rooms_get_def reaper_loop_rooms
    using in_set by (simp add: rooms_get_def)
  have 2: "roomCreators (reaper s) r = (if rooms_get s r = Some [] then None else roomCreators s r)"
    unfolding reaper_def reaper_loop_creators using in_set by simp
  have 3: "rooms_has s r \<longrightarrow> (rooms_has (reaper s) r \<longleftrightarrow> members s r \<noteq> [])"
    using 1 by (auto simp: rooms_has_def rooms_get_def members_def split: option.splits)
  have 4: "members s r \<noteq> [] \<longrightarrow> members (reaper s) r = members s r"
    using 1 by (auto simp: rooms_get_def members_def split: option.splits)
  from 1 2 3 4 show ?thesis by blast
qed

text \<open>The theorem at \<open>s_swept\<close>: room A, with one member, survives; the empty room B goes.\<close>

theorem reaper_deletes_exactly_empty_rooms_witness:
  "distinct (map fst (rooms s_swept))
   \<and> rooms_has s_swept ''A'' \<and> rooms_has s_swept ''B''
   \<and> rooms_get (reaper s_swept) ''A'' = Some [1] \<and> roomCreators (reaper s_swept) ''A'' = Some ''al''
   \<and> rooms_get (reaper s_swept) ''B'' = None \<and> roomCreators (reaper s_swept) ''B'' = None
   \<and> rooms_has (reaper s_swept) ''A'' \<and> \<not> rooms_has (reaper s_swept) ''B''
   \<and> members (reaper s_swept) ''A'' = [1]"
proof -
  have d: "distinct (map fst (rooms s_swept))" by (simp add: s_swept_def)
  have g: "rooms_get s_swept ''A'' = Some [1]" "rooms_get s_swept ''B'' = Some []"
    "roomCreators s_swept ''A'' = Some ''al''"
    by (simp_all add: rooms_get_def s_swept_def)
  have h: "rooms_has s_swept ''A''" "rooms_has s_swept ''B''"
    "members s_swept ''A'' = [1]" "members s_swept ''B'' = []"
    by (simp_all add: rooms_has_def members_def s_swept_def)
  show ?thesis
    using reaper_deletes_exactly_empty_rooms [OF d, of "''A''"]
          reaper_deletes_exactly_empty_rooms [OF d, of "''B''"] d g h
    by simp
qed

subsection \<open>The pieces the handlers are made of\<close>

lemma members_upd [simp]:
  "members (s\<lparr>roomCreators := a\<rparr>) = members s"
  "members (s\<lparr>userRooms := b\<rparr>) = members s"
  "members (s\<lparr>ws_roomId := c\<rparr>) = members s"
  "members (s\<lparr>ws_username := d\<rparr>) = members s"
  "members (s\<lparr>sent := e\<rparr>) = members s"
  by (simp_all add: members_def fun_eq_iff)

lemma rooms_has_upd [simp]:
  "rooms_has (s\<lparr>roomCreators := a\<rparr>) = rooms_has s"
  "rooms_has (s\<lparr>userRooms := b\<rparr>) = rooms_has s"
  "rooms_has (s\<lparr>ws_roomId := c\<rparr>) = rooms_has s"
  "rooms_has (s\<lparr>ws_username := d\<rparr>) = rooms_has s"
  "rooms_has (s\<lparr>sent := e\<rparr>) = rooms_has s"
  by (simp_all add: rooms_has_def fun_eq_iff)

lemma rooms_has_members: "\<not> rooms_has s r \<Longrightarrow> members s r = []"
  by (simp add: rooms_has_def members_def)

lemma room_size_members: "room_size s r = length (members s r)"
  by (simp add: room_size_def members_def split: option.splits)

lemma room_delete_members:
  "members (room_delete r c s) q = (if q = r then removeAll c (members s r) else members s q)"
  by (auto simp: room_delete_def members_def map_of_map_entry split: option.splits)

lemma room_add_members:
  "members (room_add r c s) q =
     (if q = r \<and> rooms_has s r then set_add c (members s r) else members s q)"
  by (auto simp: room_add_def members_def rooms_has_def map_of_map_entry split: option.splits)

lemma room_delete_has [simp]: "rooms_has (room_delete r c s) = rooms_has s"
  by (auto simp: room_delete_def rooms_has_def map_of_map_entry fun_eq_iff split: option.splits)

lemma room_add_has [simp]: "rooms_has (room_add r c s) = rooms_has s"
  by (auto simp: room_add_def rooms_has_def map_of_map_entry fun_eq_iff split: option.splits)

lemma room_delete_other [simp]:
  "roomCreators (room_delete r c s) = roomCreators s"
  "userRooms (room_delete r c s) = userRooms s"
  "ws_roomId (room_delete r c s) = ws_roomId s"
  "ws_username (room_delete r c s) = ws_username s"
  "sent (room_delete r c s) = sent s"
  by (simp_all add: room_delete_def)

lemma room_add_other [simp]:
  "roomCreators (room_add r c s) = roomCreators s"
  "userRooms (room_add r c s) = userRooms s"
  "ws_roomId (room_add r c s) = ws_roomId s"
  "ws_username (room_add r c s) = ws_username s"
  "sent (room_add r c s) = sent s"
  by (simp_all add: room_add_def)

lemma bind_tags_fields [simp]:
  "members (bind_tags ws r u s) = members s"
  "rooms_has (bind_tags ws r u s) = rooms_has s"
  "roomCreators (bind_tags ws r u s) = roomCreators s"
  "userRooms (bind_tags ws r u s) = (userRooms s)(ws \<mapsto> r)"
  "ws_roomId (bind_tags ws r u s) = (ws_roomId s)(ws := Some r)"
  "ws_username (bind_tags ws r u s) = (ws_username s)(ws := Some u)"
  "sent (bind_tags ws r u s) = sent s"
  by (simp_all add: bind_tags_def)

lemma leave_previous_sent:
  "sent (leave_previous tr ws u skip s) = sent s @ left_notices tr ws u skip s"
  by (auto simp: leave_previous_def left_notices_def broadcastToRoom_sent room_delete_members
      split: option.splits)

lemma leave_previous_has [simp]: "rooms_has (leave_previous tr ws u skip s) = rooms_has s"
  by (auto simp: leave_previous_def broadcastToRoom_has fun_eq_iff split: option.splits)

lemma leave_previous_other [simp]:
  "roomCreators (leave_previous tr ws u skip s) = roomCreators s"
  "ws_roomId (leave_previous tr ws u skip s) = ws_roomId s"
  "ws_username (leave_previous tr ws u skip s) = ws_username s"
  by (auto simp: leave_previous_def broadcastToRoom_other split: option.splits)

lemma leave_previous_members:
  "members (leave_previous tr ws u skip s) q =
     (if userRooms s ws = Some q \<and> rooms_has s q \<and> \<not> skip q
      then filter (\<lambda>x. \<not> pruned tr (Some ws) x) (removeAll ws (members s q))
      else members s q)"
  by (auto simp: leave_previous_def broadcastToRoom_members room_delete_members
      split: option.splits)

lemma leave_previous_userRooms_self:
  "userRooms (leave_previous tr ws u skip s) ws = userRooms s ws"
  by (auto simp: leave_previous_def broadcastToRoom_userRooms pruned_def split: option.splits)

lemma left_notices_are_user_left:
  "x \<in> set (left_notices tr ws u skip s) \<Longrightarrow> \<exists>p. snd x = UserLeft p (Some u) None None"
  by (auto simp: left_notices_def split: option.splits if_splits)

lemma name_taken_iff:
  "name_taken s ws u room \<longleftrightarrow> (\<exists>c \<in> set room. ws_username s c = Some u \<and> c \<noteq> ws)"
  by (induction room) auto

lemma set_add_set [simp]: "set (set_add c xs) = insert c (set xs)"
  by (auto simp: set_add_def)

lemma not_deliverable_self [simp]: "\<not> deliverable tr (Some ws) ws"
  by (simp add: deliverable_def)

lemma not_pruned_self [simp]: "\<not> pruned tr (Some ws) ws"
  by (simp add: pruned_def)

subsection \<open>join_room\<close>

lemma new_msgs_append [simp]: "sent s' = sent s @ xs \<Longrightarrow> new_msgs s s' = xs"
  by (simp add: new_msgs_def)

text \<open>The path of \<^verbatim>\<open>handleJoinRoom\<close> past its three checks.\<close>

lemma join_room_accepted:
  assumes "r \<noteq> []" "u \<noteq> []" "rooms_get s r = Some room"
    and "\<forall>c \<in> set room. ws_username s c = Some u \<longrightarrow> c = ws"
  shows "handleJoinRoom tr ws (Some r) (Some u) s =
     (let s3 = bind_tags ws r u (room_add r ws (leave_previous tr ws u (\<lambda>p. p = r) s))
      in if send_throws tr ws then Threw s3
         else Returned (broadcastToRoom tr r
                (UserJoined r u (Some (length (set_add ws room))) False) (Some ws)
                (s3\<lparr>sent := sent s3 @ [(ws, JoinSuccess r u (length (set_add ws room)))]\<rparr>)))"
proof -
  have nt: "\<not> name_taken s ws u room" using assms(4) by (auto simp: name_taken_iff)
  have has: "rooms_has s r" using assms(3) by (simp add: rooms_has_def rooms_get_def)
  have mem: "members s r = room" using assms(3) by (rule members_Some)
  have sz: "room_size (bind_tags ws r u (room_add r ws (leave_previous tr ws u (\<lambda>p. p = r) s))) r
            = length (set_add ws room)"
    by (simp add: room_size_members room_add_members leave_previous_members has mem)
  show ?thesis
    using assms(1,2,3) nt sz
    by (simp add: handleJoinRoom_def join_room_body_def ws_send_def Let_def room_size_members)
qed

lemma join_room_accepted_sent:
  assumes "r \<noteq> []" "u \<noteq> []" "rooms_get s r = Some room"
    and "\<forall>c \<in> set room. ws_username s c = Some u \<longrightarrow> c = ws"
  shows "sent (state_of (handleJoinRoom tr ws (Some r) (Some u) s)) =
     sent s @ left_notices tr ws u (\<lambda>p. p = r) s @
       (if send_throws tr ws then []
        else (ws, JoinSuccess r u (length (set_add ws room))) #
             map (\<lambda>c. (c, UserJoined r u (Some (length (set_add ws room))) False))
               (filter (deliverable tr (Some ws)) (set_add ws room)))"
proof -
  have has: "rooms_has s r" using assms(3) by (simp add: rooms_has_def rooms_get_def)
  have mem: "members s r = room" using assms(3) by (rule members_Some)
  show ?thesis
    unfolding join_room_accepted [OF assms]
    by (simp add: Let_def broadcastToRoom_sent leave_previous_sent room_add_members
        leave_previous_members has mem)
qed

text \<open>
  Claim C3, as the code has it. A \<^verbatim>\<open>join_room\<close> with non-empty \<^verbatim>\<open>roomId\<close> and \<^verbatim>\<open>username\<close>: when the room
  is absent, all the handler does is send \<^verbatim>\<open>join_error\<close> "Room not found" to the
  requester, so the tables and tags stay as they are (if that \<^verbatim>\<open>send\<close> throws, the
  handler throws with the state untouched). When a different socket in the room's member
  set has the name, all it does is send \<^verbatim>\<open>join_error\<close> "Username already taken in this
  room". When the only member with that name, if any, is the requester itself, no
  \<^verbatim>\<open>join_error\<close> is sent and the requester gets \<^verbatim>\<open>join_success\<close>.
\<close>

theorem join_room_rejections:
  assumes "r \<noteq> []" "u \<noteq> []"
  shows "(rooms_get s r = None \<longrightarrow>
            handleJoinRoom tr ws (Some r) (Some u) s =
              (if send_throws tr ws then Threw s
               else Returned (s\<lparr>sent := sent s @ [(ws, JoinError ''Room not found'' r)]\<rparr>)))
       \<and> (\<forall>room. rooms_get s r = Some room \<and> (\<exists>c \<in> set room. c \<noteq> ws \<and> ws_username s c = Some u) \<longrightarrow>
            handleJoinRoom tr ws (Some r) (Some u) s =
              (if send_throws tr ws then Threw s
               else Returned (s\<lparr>sent := sent s @
                      [(ws, JoinError ''Username already taken in this room'' r)]\<rparr>)))
       \<and> (\<forall>room. rooms_get s r = Some room \<and> (\<forall>c \<in> set room. ws_username s c = Some u \<longrightarrow> c = ws) \<longrightarrow>
            (\<forall>e q. (ws, JoinError e q) \<notin> set (new_msgs s (state_of (handleJoinRoom tr ws (Some r) (Some u) s))))
            \<and> (\<not> send_throws tr ws \<longrightarrow>
                 (ws, JoinSuccess r u (length (set_add ws room)))
                   \<in> set (new_msgs s (state_of (handleJoinRoom tr ws (Some r) (Some u) s)))))"
proof (intro conjI allI impI)
  assume "rooms_get s r = None"
  then show "handleJoinRoom tr ws (Some r) (Some u) s =
              (if send_throws tr ws then Threw s
               else Returned (s\<lparr>sent := sent s @ [(ws, JoinError ''Room not found'' r)]\<rparr>))"
    using assms by (simp add: handleJoinRoom_def join_room_body_def ws_send_def)
next
  fix room
  assume h: "rooms_get s r = Some room \<and> (\<exists>c \<in> set room. c \<noteq> ws \<and> ws_username s c = Some u)"
  then have "name_taken s ws u room" by (auto simp: name_taken_iff)
  then show "handleJoinRoom tr ws (Some r) (Some u) s =
              (if send_throws tr ws then Threw s
               else Returned (s\<lparr>sent := sent s @
                      [(ws, JoinError ''Username already taken in this room'' r)]\<rparr>))"
    using assms h by (simp add: handleJoinRoom_def join_room_body_def ws_send_def)
next
  fix room e q
  assume h: "rooms_get s r = Some room \<and> (\<forall>c \<in> set room. ws_username s c = Some u \<longrightarrow> c = ws)"
  then have eq: "sent (state_of (handleJoinRoom tr ws (Some r) (Some u) s)) =
     sent s @ left_notices tr ws u (\<lambda>p. p = r) s @
       (if send_throws tr ws then []
        else (ws, JoinSuccess r u (length (set_add ws room))) #
             map (\<lambda>c. (c, UserJoined r u (Some (length (set_add ws room))) False))
               (filter (deliverable tr (Some ws)) (set_add ws room)))"
    using join_room_accepted_sent [OF assms] by blast
  show "(ws, JoinError e q) \<notin> set (new_msgs s (state_of (handleJoinRoom tr ws (Some r) (Some u) s)))"
    unfolding new_msgs_append [OF eq]
    by (auto dest: left_notices_are_user_left)
next
  fix room
  assume h: "rooms_get s r = Some room \<and> (\<forall>c \<in> set room. ws_username s c = Some u \<longrightarrow> c = ws)"
    and nt: "\<not> send_throws tr ws"
  from h have eq: "sent (state_of (handleJoinRoom tr ws (Some r) (Some u) s)) =
     sent s @ left_notices tr ws u (\<lambda>p. p = r) s @
       (if send_throws tr ws then []
        else (ws, JoinSuccess r u (length (set_add ws room))) #
             map (\<lambda>c. (c, UserJoined r u (Some (length (set_add ws room))) False))
               (filter (deliverable tr (Some ws)) (set_add ws room)))"
    using join_room_accepted_sent [OF assms] by blast
  show "(ws, JoinSuccess r u (length (set_add ws room)))
          \<in> set (new_msgs s (state_of (handleJoinRoom tr ws (Some r) (Some u) s)))"
    unfolding new_msgs_append [OF eq] using nt by simp
qed

text \<open>
  The theorem at \<open>s_demo\<close>: socket 4 asks for the absent room Z; socket 4 asks for room A
  under the name of socket 1; socket 1 asks for room A, where it is, under its own name.
\<close>

theorem join_room_rejections_witness:
  "rooms_get s_demo ''Z'' = None
   \<and> handleJoinRoom tr_ok 4 (Some ''Z'') (Some ''al'') s_demo
       = Returned (s_demo\<lparr>sent := [(4, JoinError ''Room not found'' ''Z'')]\<rparr>)
   \<and> rooms_get s_demo ''A'' = Some [1, 2, 3] \<and> ws_username s_demo 1 = Some ''al''
   \<and> handleJoinRoom tr_ok 4 (Some ''A'') (Some ''al'') s_demo
       = Returned (s_demo\<lparr>sent := [(4, JoinError ''Username already taken in this room'' ''A'')]\<rparr>)
   \<and> (1, JoinSuccess ''A'' ''al'' 3)
       \<in> set (new_msgs s_demo (state_of (handleJoinRoom tr_ok 1 (Some ''A'') (Some ''al'') s_demo)))
   \<and> (1, JoinError ''Username already taken in this room'' ''A'')
       \<notin> set (new_msgs s_demo (state_of (handleJoinRoom tr_ok 1 (Some ''A'') (Some ''al'') s_demo)))"
proof -
  have ne: "''Z'' \<noteq> []" "''A'' \<noteq> []" "''al'' \<noteq> []" by simp_all
  have z: "rooms_get s_demo ''Z'' = None" by (simp add: rooms_get_def s_demo_def)
  have a: "rooms_get s_demo ''A'' = Some [1, 2, 3]" by (simp add: rooms_get_def s_demo_def)
  have n: "ws_username s_demo 1 = Some ''al''" "ws_username s_demo 2 = Some ''bo''"
    "ws_username s_demo 3 = Some ''cy''" "sent s_demo = []"
    by (simp_all add: s_demo_def)
  have t: "\<not> send_throws tr_ok 4" "\<not> send_throws tr_ok 1" by (simp_all add: tr_ok_def)
  show ?thesis
    using join_room_rejections [OF ne(1) ne(3), of s_demo tr_ok 4]
          join_room_rejections [OF ne(2) ne(3), of s_demo tr_ok 4]
          join_room_rejections [OF ne(2) ne(3), of s_demo tr_ok 1] z a n t
    by (simp add: set_add_def numeral_3_eq_3)
qed

text \<open>
  Claim C4. For a \<^verbatim>\<open>join_room\<close> that passes the checks, the messages the handler sends
  are, in this order: the \<^verbatim>\<open>user_left\<close> notices to the room the joiner was bound to;
  then \<^verbatim>\<open>join_success\<close> to the joiner, carrying the size of the member set with the joiner
  in it; then \<^verbatim>\<open>user_joined\<close> to the members that can be reached, the joiner not among
  them. When the \<^verbatim>\<open>send\<close> of \<^verbatim>\<open>join_success\<close> throws, no \<^verbatim>\<open>user_joined\<close> is sent at all.
  So no member is told before the joiner is.
\<close>

theorem join_success_precedes_user_joined:
  assumes "r \<noteq> []" "u \<noteq> []" "rooms_get s r = Some room"
    and "\<forall>c \<in> set room. ws_username s c = Some u \<longrightarrow> c = ws"
  shows "new_msgs s (state_of (handleJoinRoom tr ws (Some r) (Some u) s)) =
           left_notices tr ws u (\<lambda>p. p = r) s @
           (if send_throws tr ws then []
            else (ws, JoinSuccess r u (length (set_add ws room))) #
                 map (\<lambda>c. (c, UserJoined r u (Some (length (set_add ws room))) False))
                   (filter (deliverable tr (Some ws)) (set_add ws room)))
       \<and> (\<forall>x \<in> set (left_notices tr ws u (\<lambda>p. p = r) s). \<exists>p. snd x = UserLeft p (Some u) None None)
       \<and> ws \<notin> set (filter (deliverable tr (Some ws)) (set_add ws room))
       \<and> (\<not> send_throws tr ws \<longrightarrow> (\<exists>s'. handleJoinRoom tr ws (Some r) (Some u) s = Returned s'))"
proof -
  have 1: "new_msgs s (state_of (handleJoinRoom tr ws (Some r) (Some u) s)) =
           left_notices tr ws u (\<lambda>p. p = r) s @
           (if send_throws tr ws then []
            else (ws, JoinSuccess r u (length (set_add ws room))) #
                 map (\<lambda>c. (c, UserJoined r u (Some (length (set_add ws room))) False))
                   (filter (deliverable tr (Some ws)) (set_add ws room)))"
    by (rule new_msgs_append [OF join_room_accepted_sent [OF assms]])
  have 2: "\<forall>x \<in> set (left_notices tr ws u (\<lambda>p. p = r) s). \<exists>p. snd x = UserLeft p (Some u) None None"
    by (blast dest: left_notices_are_user_left)
  have 3: "ws \<notin> set (filter (deliverable tr (Some ws)) (set_add ws room))" by simp
  have 4: "\<not> send_throws tr ws \<longrightarrow> (\<exists>s'. handleJoinRoom tr ws (Some r) (Some u) s = Returned s')"
    unfolding join_room_accepted [OF assms] by (simp add: Let_def)
  from 1 2 3 4 show ?thesis by blast
qed

text \<open>
  The theorem at \<open>s_demo\<close>: socket 4 leaves room B, where it was alone, and joins room A as
  \<open>dd\<close>. It gets \<^verbatim>\<open>join_success\<close> with four participants; then the sockets 1, 2 and 3 get
  \<^verbatim>\<open>user_joined\<close>.
\<close>

theorem join_success_precedes_user_joined_witness:
  "rooms_get s_demo ''A'' = Some [1, 2, 3]
   \<and> ws_username s_demo 1 = Some ''al'' \<and> ws_username s_demo 2 = Some ''bo''
   \<and> ws_username s_demo 3 = Some ''cy''
   \<and> new_msgs s_demo (state_of (handleJoinRoom tr_ok 4 (Some ''A'') (Some ''dd'') s_demo)) =
       [(4, JoinSuccess ''A'' ''dd'' 4),
        (1, UserJoined ''A'' ''dd'' (Some 4) False),
        (2, UserJoined ''A'' ''dd'' (Some 4) False),
        (3, UserJoined ''A'' ''dd'' (Some 4) False)]"
proof -
  have ne: "''A'' \<noteq> []" "''dd'' \<noteq> []" by simp_all
  have a: "rooms_get s_demo ''A'' = Some [1, 2, 3]" by (simp add: rooms_get_def s_demo_def)
  have n: "\<forall>c \<in> set [1, 2, 3]. ws_username s_demo c = Some ''dd'' \<longrightarrow> c = 4"
    by (simp add: s_demo_def)
  have l: "left_notices tr_ok 4 ''dd'' (\<lambda>p. p = ''A'') s_demo = []"
    by (simp add: left_notices_def s_demo_def rooms_has_def members_def)
  have w: "ws_username s_demo 1 = Some ''al''" "ws_username s_demo 2 = Some ''bo''"
    "ws_username s_demo 3 = Some ''cy''"
    by (simp_all add: s_demo_def)
  show ?thesis
    using join_success_precedes_user_joined [OF ne a n, of tr_ok] a w l
    by (simp add: set_add_def deliverable_def tr_ok_def)
qed

subsection \<open>create_room\<close>

text \<open>The path of \<^verbatim>\<open>handleCreateRoom\<close> for a room that exists already.\<close>

lemma create_room_existing:
  assumes "r \<noteq> []" "u \<noteq> []" "rooms_has s r"
  shows "handleCreateRoom tr ws (Some r) (Some u) s =
     (let s3 = bind_tags ws r u (room_add r ws (leave_previous tr ws u (\<lambda>_. False) s))
      in if send_throws tr ws then Threw s3
         else Returned (broadcastToRoom tr r (UserJoined r u None True) (Some ws)
                (s3\<lparr>sent := sent s3 @ [(ws, RoomCreated r u)]\<rparr>)))"
  using assms
  by (simp add: handleCreateRoom_def create_room_body_def ws_send_def Let_def)

lemma deliverable_set_add:
  "filter (deliverable tr (Some ws)) (set_add ws xs) = filter (deliverable tr (Some ws)) xs"
  by (simp add: set_add_def)

lemma deliverable_survivors:
  "filter (\<lambda>x. \<not> pruned tr (Some ws) x \<and> deliverable tr (Some ws) x) (removeAll ws xs)
     = filter (deliverable tr (Some ws)) xs"
  by (induction xs) (auto simp: pruned_def deliverable_def)

lemma create_room_recipients:
  "filter (deliverable tr (Some ws))
     (set_add ws (members (leave_previous tr ws u (\<lambda>_. False) s) r))
     = filter (deliverable tr (Some ws)) (members s r)"
  by (simp add: deliverable_set_add leave_previous_members deliverable_survivors)

lemma create_room_survivors:
  "insert ws {c \<in> set (members (leave_previous tr ws u (\<lambda>_. False) s) r). \<not> pruned tr (Some ws) c}
     = insert ws {c \<in> set (members s r). \<not> pruned tr (Some ws) c}"
  by (auto simp: leave_previous_members split: if_splits)

text \<open>
  Claim C5. A \<^verbatim>\<open>create_room\<close> for a room that exists leaves \<^verbatim>\<open>roomCreators\<close> as it is,
  whatever name the request carries, and still joins: the requester is in the member set
  and bound to the room under the new name, and no member the room had leaves it, except
  those that a broadcast of this call prunes because their \<^verbatim>\<open>send\<close> throws. The messages
  sent are, in this order: the \<^verbatim>\<open>user_left\<close> notices to the room the requester was bound
  to; \<^verbatim>\<open>room_created\<close> to the requester; \<^verbatim>\<open>user_joined\<close> (with \<^verbatim>\<open>isCreator\<close>) to
  every member the room had before the call, other than the requester, whose socket is
  open and whose \<^verbatim>\<open>send\<close> returns.
\<close>

theorem create_room_keeps_creator:
  assumes "r \<noteq> []" "u \<noteq> []" "rooms_has s r"
  shows "roomCreators (state_of (handleCreateRoom tr ws (Some r) (Some u) s)) = roomCreators s
       \<and> ws \<in> set (members (state_of (handleCreateRoom tr ws (Some r) (Some u) s)) r)
       \<and> userRooms (state_of (handleCreateRoom tr ws (Some r) (Some u) s)) ws = Some r
       \<and> ws_roomId (state_of (handleCreateRoom tr ws (Some r) (Some u) s)) ws = Some r
       \<and> ws_username (state_of (handleCreateRoom tr ws (Some r) (Some u) s)) ws = Some u
       \<and> new_msgs s (state_of (handleCreateRoom tr ws (Some r) (Some u) s)) =
           left_notices tr ws u (\<lambda>_. False) s @
           (if send_throws tr ws then []
            else (ws, RoomCreated r u) #
                 map (\<lambda>c. (c, UserJoined r u None True))
                   (filter (\<lambda>c. c \<noteq> ws \<and> readyState tr c = OPEN \<and> \<not> send_throws tr c)
                      (members s r)))
       \<and> (\<not> send_throws tr ws \<longrightarrow>
            (\<exists>s'. handleCreateRoom tr ws (Some r) (Some u) s = Returned s'
               \<and> set (members s' r)
                   = insert ws {c \<in> set (members s r).
                                 \<not> (readyState tr c = OPEN \<and> send_throws tr c)}))"
proof -
  let ?out = "handleCreateRoom tr ws (Some r) (Some u) s"
  note eq = create_room_existing [OF assms, of tr ws]
  have d: "deliverable tr (Some ws) = (\<lambda>c. c \<noteq> ws \<and> readyState tr c = OPEN \<and> \<not> send_throws tr c)"
    by (auto simp: deliverable_def fun_eq_iff)
  have p: "insert ws {c \<in> set (members s r). \<not> pruned tr (Some ws) c}
           = insert ws {c \<in> set (members s r). \<not> (readyState tr c = OPEN \<and> send_throws tr c)}"
    by (auto simp: pruned_def)
  have 1: "roomCreators (state_of ?out) = roomCreators s"
    unfolding eq by (simp add: Let_def broadcastToRoom_other)
  have 2: "ws \<in> set (members (state_of ?out) r)"
    unfolding eq by (simp add: Let_def broadcastToRoom_members room_add_members assms(3))
  have 3: "userRooms (state_of ?out) ws = Some r"
    unfolding eq by (simp add: Let_def broadcastToRoom_userRooms)
  have 4: "ws_roomId (state_of ?out) ws = Some r"
    unfolding eq by (simp add: Let_def broadcastToRoom_other)
  have 5: "ws_username (state_of ?out) ws = Some u"
    unfolding eq by (simp add: Let_def broadcastToRoom_other)
  have "sent (state_of ?out) = sent s @
           left_notices tr ws u (\<lambda>_. False) s @
           (if send_throws tr ws then []
            else (ws, RoomCreated r u) #
                 map (\<lambda>c. (c, UserJoined r u None True))
                   (filter (deliverable tr (Some ws)) (members s r)))"
    unfolding eq
    by (simp add: Let_def broadcastToRoom_sent leave_previous_sent room_add_members assms(3)
        create_room_recipients)
  then have 6: "new_msgs s (state_of ?out) =
           left_notices tr ws u (\<lambda>_. False) s @
           (if send_throws tr ws then []
            else (ws, RoomCreated r u) #
                 map (\<lambda>c. (c, UserJoined r u None True))
                   (filter (\<lambda>c. c \<noteq> ws \<and> readyState tr c = OPEN \<and> \<not> send_throws tr c)
                      (members s r)))"
    unfolding d by (rule new_msgs_append)
  have "\<not> send_throws tr ws \<longrightarrow>
            (\<exists>s'. ?out = Returned s'
               \<and> set (members s' r) = insert ws {c \<in> set (members s r). \<not> pruned tr (Some ws) c})"
    unfolding eq create_room_survivors [of ws tr u s r, symmetric]
    by (auto simp: Let_def broadcastToRoom_members room_add_members assms(3))
  then have 7: "\<not> send_throws tr ws \<longrightarrow>
            (\<exists>s'. ?out = Returned s'
               \<and> set (members s' r)
                   = insert ws {c \<in> set (members s r).
                                 \<not> (readyState tr c = OPEN \<and> send_throws tr c)})"
    unfolding p .
  from 1 2 3 4 5 6 7 show ?thesis by blast
qed

text \<open>
  The theorem at \<open>s_demo\<close>: socket 4 sends \<^verbatim>\<open>create_room\<close> for room A, which \<open>al\<close>
  created, under the name \<open>dd\<close>. The creator is still \<open>al\<close>; socket 4 gets
  \<^verbatim>\<open>room_created\<close>, then the sockets 1, 2 and 3, the members room A had, get
  \<^verbatim>\<open>user_joined\<close>; the room now has the four of them.
\<close>

theorem create_room_keeps_creator_witness:
  "rooms_has s_demo ''A'' \<and> roomCreators s_demo ''A'' = Some ''al''
   \<and> members s_demo ''A'' = [1, 2, 3]
   \<and> roomCreators (state_of (handleCreateRoom tr_ok 4 (Some ''A'') (Some ''dd'') s_demo)) ''A'' = Some ''al''
   \<and> userRooms (state_of (handleCreateRoom tr_ok 4 (Some ''A'') (Some ''dd'') s_demo)) 4 = Some ''A''
   \<and> ws_username (state_of (handleCreateRoom tr_ok 4 (Some ''A'') (Some ''dd'') s_demo)) 4 = Some ''dd''
   \<and> new_msgs s_demo (state_of (handleCreateRoom tr_ok 4 (Some ''A'') (Some ''dd'') s_demo)) =
       [(4, RoomCreated ''A'' ''dd''),
        (1, UserJoined ''A'' ''dd'' None True),
        (2, UserJoined ''A'' ''dd'' None True),
        (3, UserJoined ''A'' ''dd'' None True)]
   \<and> (\<exists>s'. handleCreateRoom tr_ok 4 (Some ''A'') (Some ''dd'') s_demo = Returned s'
         \<and> set (members s' ''A'') = {1, 2, 3, 4})"
proof -
  have ne: "''A'' \<noteq> []" "''dd'' \<noteq> []" by simp_all
  have a: "rooms_has s_demo ''A''" by (simp add: rooms_has_def s_demo_def)
  have c: "roomCreators s_demo ''A'' = Some ''al''" by (simp add: s_demo_def)
  have m: "members s_demo ''A'' = [1, 2, 3]" by (simp add: members_def s_demo_def)
  have l: "left_notices tr_ok 4 ''dd'' (\<lambda>_. False) s_demo = []"
    by (simp add: left_notices_def s_demo_def rooms_has_def members_def)
  have t: "\<And>c. readyState tr_ok c = OPEN" "\<And>c. \<not> send_throws tr_ok c"
    by (simp_all add: tr_ok_def)
  have e: "insert 4 {c. c = Suc 0 \<or> c = 2 \<or> c = 3} = {1, 2, 3, 4::nat}" by auto
  show ?thesis
    using create_room_keeps_creator [OF ne a, of tr_ok 4] a c m l t e
    by simp
qed

subsection \<open>chat_message\<close>





subsection \<open>leave_room\<close>

text \<open>\<^verbatim>\<open>handleLeaveRoom\<close> for a message that names an existing room.\<close>

lemma leave_room_named:
  assumes "r' \<noteq> []" "rooms_has s r'"
  shows "handleLeaveRoom tr ws (Some r') s =
     (let s1 = (room_delete r' ws s)\<lparr>userRooms := (userRooms s)(ws := None)\<rparr>;
          s2 = broadcastToRoom tr r'
                 (UserLeft r' (ws_username s ws) (Some (length (removeAll ws (members s r')))) None)
                 None s1;
          s3 = s2\<lparr>ws_roomId := (ws_roomId s2)(ws := None),
                  ws_username := (ws_username s2)(ws := None)\<rparr>
      in if send_throws tr ws then Threw s3
         else Returned (s3\<lparr>sent := sent s3 @ [(ws, LeaveSuccess r')]\<rparr>))"
  using assms
  by (simp add: handleLeaveRoom_def falsy_def Let_def ws_send_def room_size_members
      room_delete_members)

text \<open>
  Claim C10. A socket bound to room \<open>r\<close>, and in its member set, sends \<^verbatim>\<open>leave_room\<close>
  naming a room \<open>r'\<close> that exists and that it is not a member of. The handler runs the
  whole leave path: the socket's binding and both its tags, the name among them, are
  cleared; \<^verbatim>\<open>user_left\<close> with the socket's display name goes to the members of \<open>r'\<close>
  that can be reached; the socket is sent \<^verbatim>\<open>leave_success\<close>. And the socket is still
  in the member set of \<open>r\<close>.
\<close>

theorem leave_foreign_room:
  assumes "r' \<noteq> []" "rooms_has s r'" "ws \<notin> set (members s r')"
    and "userRooms s ws = Some r" "ws \<in> set (members s r)"
  shows "userRooms (state_of (handleLeaveRoom tr ws (Some r') s)) ws = None
       \<and> ws_roomId (state_of (handleLeaveRoom tr ws (Some r') s)) ws = None
       \<and> ws_username (state_of (handleLeaveRoom tr ws (Some r') s)) ws = None
       \<and> ws \<in> set (members (state_of (handleLeaveRoom tr ws (Some r') s)) r)
       \<and> new_msgs s (state_of (handleLeaveRoom tr ws (Some r') s)) =
           map (\<lambda>c. (c, UserLeft r' (ws_username s ws) (Some (length (members s r'))) None))
             (filter (\<lambda>c. readyState tr c = OPEN \<and> \<not> send_throws tr c) (members s r'))
           @ (if send_throws tr ws then [] else [(ws, LeaveSuccess r')])
       \<and> (\<not> send_throws tr ws \<longrightarrow> (\<exists>s'. handleLeaveRoom tr ws (Some r') s = Returned s'))"
proof -
  let ?out = "handleLeaveRoom tr ws (Some r') s"
  note eq = leave_room_named [OF assms(1,2), of tr ws]
  have ne: "r \<noteq> r'" using assms(3,5) by auto
  have rm: "removeAll ws (members s r') = members s r'" using assms(3) by simp
  have d: "deliverable tr None = (\<lambda>c. readyState tr c = OPEN \<and> \<not> send_throws tr c)"
    by (auto simp: deliverable_def fun_eq_iff)
  have 1: "userRooms (state_of ?out) ws = None"
    unfolding eq by (simp add: Let_def broadcastToRoom_userRooms)
  have 2: "ws_roomId (state_of ?out) ws = None"
    unfolding eq by (simp add: Let_def)
  have 3: "ws_username (state_of ?out) ws = None"
    unfolding eq by (simp add: Let_def)
  have 4: "ws \<in> set (members (state_of ?out) r)"
    unfolding eq using ne assms(5)
    by (simp add: Let_def broadcastToRoom_members room_delete_members)
  have "sent (state_of ?out) = sent s @
           map (\<lambda>c. (c, UserLeft r' (ws_username s ws) (Some (length (members s r'))) None))
             (filter (\<lambda>c. readyState tr c = OPEN \<and> \<not> send_throws tr c) (members s r'))
           @ (if send_throws tr ws then [] else [(ws, LeaveSuccess r')])"
    unfolding eq
    by (simp add: Let_def broadcastToRoom_sent room_delete_members rm d)
  then have 5: "new_msgs s (state_of ?out) =
           map (\<lambda>c. (c, UserLeft r' (ws_username s ws) (Some (length (members s r'))) None))
             (filter (\<lambda>c. readyState tr c = OPEN \<and> \<not> send_throws tr c) (members s r'))
           @ (if send_throws tr ws then [] else [(ws, LeaveSuccess r')])"
    by (rule new_msgs_append)
  have 6: "\<not> send_throws tr ws \<longrightarrow> (\<exists>s'. ?out = Returned s')"
    unfolding eq by (simp add: Let_def)
  from 1 2 3 4 5 6 show ?thesis by blast
qed

text \<open>
  The theorem at \<open>s_demo\<close>: socket 1, bound to room A, names room B, whose only member is
  socket 4.
\<close>

theorem leave_foreign_room_witness:
  "rooms_has s_demo ''B'' \<and> 1 \<notin> set (members s_demo ''B'')
   \<and> userRooms s_demo 1 = Some ''A'' \<and> 1 \<in> set (members s_demo ''A'')
   \<and> userRooms (state_of (handleLeaveRoom tr_ok 1 (Some ''B'') s_demo)) 1 = None
   \<and> ws_username (state_of (handleLeaveRoom tr_ok 1 (Some ''B'') s_demo)) 1 = None
   \<and> 1 \<in> set (members (state_of (handleLeaveRoom tr_ok 1 (Some ''B'') s_demo)) ''A'')
   \<and> new_msgs s_demo (state_of (handleLeaveRoom tr_ok 1 (Some ''B'') s_demo)) =
       [(4, UserLeft ''B'' (Some ''al'') (Some 1) None), (1, LeaveSuccess ''B'')]"
proof -
  have ne: "''B'' \<noteq> []" by simp
  have h: "rooms_has s_demo ''B''" by (simp add: rooms_has_def s_demo_def)
  have mb: "members s_demo ''B'' = [4]" by (simp add: members_def s_demo_def)
  have ma: "members s_demo ''A'' = [1, 2, 3]" by (simp add: members_def s_demo_def)
  have nb: "1 \<notin> set (members s_demo ''B'')" by (simp add: mb)
  have ia: "1 \<in> set (members s_demo ''A'')" by (simp add: ma)
  have u: "userRooms s_demo 1 = Some ''A''" "ws_username s_demo 1 = Some ''al''"
    by (simp_all add: s_demo_def)
  have t: "\<And>c. readyState tr_ok c = OPEN" "\<And>c. \<not> send_throws tr_ok c" by (simp_all add: tr_ok_def)
  show ?thesis
    using leave_foreign_room [OF ne h nb u(1) ia, of tr_ok] h nb ia u mb t
    by simp
qed

subsection \<open>Runs\<close>

lemma run_reachable: "reachable s \<Longrightarrow> run es s = Returned s' \<Longrightarrow> reachable s'"
proof (induction es arbitrary: s)
  case Nil
  then show ?case by simp
next
  case (Cons e es)
  obtain tr now ev where e: "e = (tr, now, ev)" by (cases e)
  show ?case
  proof (cases "step tr now ev s")
    case (Returned s1)
    then have "reachable s1" using Cons.prems(1) by (rule reachable_step [rotated])
    moreover have "run es s1 = Returned s'" using Cons.prems(2) e Returned by simp
    ultimately show ?thesis by (rule Cons.IH)
  next
    case (Threw s1)
    then show ?thesis using Cons.prems(2) e by simp
  qed
qed

lemmas handler_defs =
  on_message_def handleCreateRoom_def create_room_body_def handleJoinRoom_def join_room_body_def
  handleLeaveRoom_def leave_previous_def broadcastToRoom_def broadcast_one_def
  ws_send_def bind_tags_def room_add_def room_delete_def rooms_has_def rooms_get_def
  room_size_def set_add_def falsy_def Let_def

lemma run_two_rooms: "run two_rooms init = Returned s_two_rooms"
  by (simp add: two_rooms_def s_two_rooms_def init_def tr_ok_def handler_defs)

lemma reachable_two_rooms: "reachable s_two_rooms"
  using reachable_init run_two_rooms by (rule run_reachable)

lemma run_foreign_leave: "run foreign_leave s_two_rooms = Returned s_ghost"
  by (simp add: foreign_leave_def s_two_rooms_def s_ghost_def tr_ok_def handler_defs
      handleUserDisconnect_def fun_eq_iff)

lemma run_same_name: "run same_name init = Returned s_same_name"
  by (simp add: same_name_def s_same_name_def init_def tr_ok_def handler_defs)

text \<open>
  Claim C3 as the specification words it fails in its last part: a socket that sends its
  own name again for the room it is in is rejected when another member holds that name
  too. In the reachable state \<open>s_same_name\<close> socket 1 is in room A, bound to it, under the
  name \<open>al\<close>, and so is socket 2; the \<^verbatim>\<open>join_room\<close> of socket 1 for room A as \<open>al\<close> is
  answered with \<^verbatim>\<open>join_error\<close>.
\<close>

theorem own_name_rejected_when_shared:
  "reachable s_same_name
   \<and> 1 \<in> set (members s_same_name ''A'') \<and> userRooms s_same_name 1 = Some ''A''
   \<and> ws_username s_same_name 1 = Some ''al''
   \<and> handleJoinRoom tr_ok 1 (Some ''A'') (Some ''al'') s_same_name =
       Returned (s_same_name\<lparr>sent := sent s_same_name @
         [(1, JoinError ''Username already taken in this room'' ''A'')]\<rparr>)"
proof -
  have "reachable s_same_name" using reachable_init run_same_name by (rule run_reachable)
  moreover have "handleJoinRoom tr_ok 1 (Some ''A'') (Some ''al'') s_same_name =
       Returned (s_same_name\<lparr>sent := sent s_same_name @
         [(1, JoinError ''Username already taken in this room'' ''A'')]\<rparr>)"
    by (simp add: s_same_name_def tr_ok_def handler_defs)
  ultimately show ?thesis by (simp add: s_same_name_def members_def)
qed

text \<open>
  Claim C1 asks that in every reachable state a socket in a room's member set is bound to
  that room in \<^verbatim>\<open>userRooms\<close>. The code reaches a state where this fails: after socket 1
  has created room A, socket 2 has created room B, and socket 1 has sent \<^verbatim>\<open>leave_room\<close>
  naming room B, socket 1 is in the member set of room A and has no binding. Its
  disconnect, the last event of the run, does not remove it either, since \<^verbatim>\<open>ws.roomId\<close>
  has been cleared.
\<close>

theorem member_without_binding_reachable:
  "reachable s_ghost \<and> 1 \<in> set (members s_ghost ''A'') \<and> userRooms s_ghost 1 = None"
proof -
  have "reachable s_ghost" using reachable_two_rooms run_foreign_leave by (rule run_reachable)
  then show ?thesis by (simp add: s_ghost_def members_def)
qed

text \<open>
  Claim C8 asks that a bound socket whose \<^verbatim>\<open>leave_room\<close> has completed is absent from
  the member set of the room it was bound to. In the reachable state \<open>s_two_rooms\<close>
  socket 1 is bound to room A; its \<^verbatim>\<open>leave_room\<close> naming room B is answered with
  \<^verbatim>\<open>leave_success\<close> and leaves it in the member set of room A.
\<close>

theorem leave_foreign_room_stays_member:
  "reachable s_two_rooms \<and> userRooms s_two_rooms 1 = Some ''A''
   \<and> (\<exists>s'. handleLeaveRoom tr_ok 1 (Some ''B'') s_two_rooms = Returned s'
         \<and> (1, LeaveSuccess ''B'') \<in> set (sent s')
         \<and> 1 \<in> set (members s' ''A''))"
proof -
  have "handleLeaveRoom tr_ok 1 (Some ''B'') s_two_rooms = Returned s_ghost"
    by (simp add: s_two_rooms_def s_ghost_def tr_ok_def handler_defs fun_eq_iff)
  moreover have "(1, LeaveSuccess ''B'') \<in> set (sent s_ghost)" "1 \<in> set (members s_ghost ''A'')"
    by (simp_all add: s_ghost_def members_def)
  moreover have "userRooms s_two_rooms 1 = Some ''A''" by (simp add: s_two_rooms_def)
  ultimately show ?thesis using reachable_two_rooms by simp
qed

text \<open>
  Claim C2 asks that the display names of the members of a room are pairwise distinct in
  every reachable state. \<^verbatim>\<open>handleCreateRoom\<close> has no check of the name: after socket 1 has
  created room A as \<open>al\<close> and socket 2 has sent \<^verbatim>\<open>create_room\<close> for room A as \<open>al\<close>, both
  are members of room A under the same name.
\<close>

theorem create_room_duplicates_name:
  "reachable s_same_name \<and> members s_same_name ''A'' = [1, 2]
   \<and> ws_username s_same_name 1 = Some ''al'' \<and> ws_username s_same_name 2 = Some ''al''"
proof -
  have "reachable s_same_name" using reachable_init run_same_name by (rule run_reachable)
  then show ?thesis by (simp add: s_same_name_def members_def)
qed

subsection \<open>An invariant: a bound socket is a member of its room\<close>

lemma relay_inv_weaken: "relay_inv s \<Longrightarrow> relay_inv_but ws s"
  by (simp add: relay_inv_def relay_inv_but_def)

lemma relay_inv_init: "relay_inv init"
  by (simp add: relay_inv_def bound_ok_def init_def)

lemma bound_ok_sent [simp]: "bound_ok (s\<lparr>sent := x\<rparr>) c = bound_ok s c"
  by (simp add: bound_ok_def split: option.splits)

lemma relay_inv_sent [simp]: "relay_inv (s\<lparr>sent := x\<rparr>) = relay_inv s"
  by (simp add: relay_inv_def)

lemma relay_inv_ws_send: "relay_inv s \<Longrightarrow> relay_inv (state_of (ws_send tr c m s))"
  by (simp add: ws_send_def)

lemma bound_ok_broadcast: "bound_ok s c \<Longrightarrow> bound_ok (broadcastToRoom tr r m ex s) c"
  by (auto simp: bound_ok_def broadcastToRoom_userRooms broadcastToRoom_members
      broadcastToRoom_other split: option.splits)

lemma distinct_broadcast:
  "distinct (map fst (rooms s)) \<Longrightarrow> distinct (map fst (rooms (broadcastToRoom tr r m ex s)))"
  by (simp add: broadcastToRoom_rooms distinct_map_entry)

lemma relay_inv_broadcast: "relay_inv s \<Longrightarrow> relay_inv (broadcastToRoom tr r m ex s)"
  by (simp add: relay_inv_def bound_ok_broadcast distinct_broadcast)

lemma relay_inv_but_broadcast:
  "relay_inv_but ws s \<Longrightarrow> relay_inv_but ws (broadcastToRoom tr r m ex s)"
  by (simp add: relay_inv_but_def bound_ok_broadcast distinct_broadcast)

lemma bound_ok_room_delete:
  "bound_ok s c \<Longrightarrow> c \<noteq> ws \<Longrightarrow> bound_ok (room_delete r ws s) c"
  by (auto simp: bound_ok_def room_delete_members split: option.splits)

lemma distinct_room_delete:
  "distinct (map fst (rooms s)) \<Longrightarrow> distinct (map fst (rooms (room_delete r ws s)))"
  by (simp add: room_delete_def distinct_map_entry)

lemma relay_inv_but_room_delete:
  "relay_inv_but ws s \<Longrightarrow> relay_inv_but ws (room_delete r ws s)"
  by (simp add: relay_inv_but_def bound_ok_room_delete distinct_room_delete)

lemma relay_inv_but_leave_previous:
  "relay_inv_but ws s \<Longrightarrow> relay_inv_but ws (leave_previous tr ws u skip s)"
  by (simp add: leave_previous_def relay_inv_but_broadcast relay_inv_but_room_delete
      split: option.splits)

lemma relay_inv_rebind:
  assumes "relay_inv_but ws s" "rooms_has s r" "r \<noteq> []"
  shows "relay_inv (bind_tags ws r u (room_add r ws s))"
proof -
  have "distinct (map fst (rooms (bind_tags ws r u (room_add r ws s))))"
    using assms(1) by (simp add: relay_inv_but_def bind_tags_def room_add_def distinct_map_entry)
  moreover have "bound_ok (bind_tags ws r u (room_add r ws s)) c" for c
  proof (cases "c = ws")
    case True
    then show ?thesis using assms(2,3) by (simp add: bound_ok_def room_add_members)
  next
    case False
    then have "bound_ok s c" using assms(1) by (simp add: relay_inv_but_def)
    then show ?thesis using False
      by (auto simp: bound_ok_def room_add_members split: option.splits)
  qed
  ultimately show ?thesis by (simp add: relay_inv_def)
qed

lemma relay_inv_new_room:
  assumes "relay_inv s" "\<not> rooms_has s r"
  shows "relay_inv (s\<lparr>rooms := AList.update r [] (rooms s), roomCreators := (roomCreators s)(r \<mapsto> u)\<rparr>)"
    (is "relay_inv ?s'")
proof -
  have m: "members s r = []" using assms(2) by (rule rooms_has_members)
  have m': "members (s\<lparr>rooms := AList.update r [] (rooms s)\<rparr>) q
             = (if q = r then [] else members s q)" for q
    by (simp add: members_def AList.update_conv')
  have "bound_ok ?s' c" for c
  proof (cases "userRooms s c")
    case None
    then show ?thesis by (simp add: bound_ok_def)
  next
    case (Some q)
    have "bound_ok s c" using assms(1) by (simp add: relay_inv_def)
    then have b: "c \<in> set (members s q)" "ws_roomId s c = Some q" "q \<noteq> []"
      using Some by (simp_all add: bound_ok_def)
    then have "q \<noteq> r" using m by auto
    then show ?thesis using Some b by (simp add: bound_ok_def m')
  qed
  then show ?thesis using assms(1) by (simp add: relay_inv_def distinct_update)
qed

lemma relay_inv_create_room:
  assumes "relay_inv s"
  shows "relay_inv (state_of (handleCreateRoom tr ws roomId username s))"
proof -
  have body: "relay_inv (state_of (create_room_body tr ws r u s))" if "r \<noteq> []" for r u
  proof -
    let ?s1 = "if \<not> rooms_has s r
               then s\<lparr>rooms := AList.update r [] (rooms s), roomCreators := (roomCreators s)(r \<mapsto> u)\<rparr>
               else s"
    let ?s2 = "leave_previous tr ws u (\<lambda>_. False) ?s1"
    have 1: "relay_inv ?s1" using assms by (simp add: relay_inv_new_room)
    then have 2: "relay_inv_but ws ?s2"
      by (intro relay_inv_but_leave_previous relay_inv_weaken)
    have "rooms_has ?s1 r" by (simp add: rooms_has_def AList.update_conv')
    then have 3: "rooms_has ?s2 r" by (simp only: leave_previous_has)
    have 4: "relay_inv (bind_tags ws r u (room_add r ws ?s2))"
      using 2 3 that by (rule relay_inv_rebind)
    show ?thesis
      unfolding create_room_body_def Let_def using 3 4
      by (simp add: ws_send_def relay_inv_broadcast del: leave_previous_has)
  qed
  show ?thesis
    using assms body
    by (auto simp: handleCreateRoom_def relay_inv_ws_send split: option.splits)
qed

lemma relay_inv_join_room:
  assumes "relay_inv s"
  shows "relay_inv (state_of (handleJoinRoom tr ws roomId username s))"
proof -
  have body: "relay_inv (state_of (join_room_body tr ws r u s))" if "r \<noteq> []" for r u
  proof (cases "rooms_get s r")
    case None
    then show ?thesis using assms by (simp add: join_room_body_def relay_inv_ws_send)
  next
    case (Some room)
    let ?s2 = "leave_previous tr ws u (\<lambda>p. p = r) s"
    have 2: "relay_inv_but ws ?s2"
      using assms by (intro relay_inv_but_leave_previous relay_inv_weaken)
    have 3: "rooms_has ?s2 r" using Some by (simp add: rooms_has_def rooms_get_def)
    have 4: "relay_inv (bind_tags ws r u (room_add r ws ?s2))"
      using 2 3 that by (rule relay_inv_rebind)
    show ?thesis
      unfolding join_room_body_def Let_def using Some 4 assms
      by (simp add: ws_send_def relay_inv_broadcast)
  qed
  show ?thesis
    using assms body
    by (auto simp: handleJoinRoom_def relay_inv_ws_send split: option.splits)
qed

lemma relay_inv_chat_message:
  assumes "relay_inv s"
  shows "relay_inv (state_of (handleChatMessage tr now ws roomId chatMessage s))"
  using assms
  by (auto simp: handleChatMessage_def relay_inv_ws_send relay_inv_broadcast split: option.splits)

lemma relay_inv_unbind:
  assumes "relay_inv s"
  shows "relay_inv ((room_delete r ws s)\<lparr>userRooms := (userRooms s)(ws := None)\<rparr>)"
proof -
  have "bound_ok ((room_delete r ws s)\<lparr>userRooms := (userRooms s)(ws := None)\<rparr>) c" for c
  proof (cases "c = ws")
    case True
    then show ?thesis by (simp add: bound_ok_def)
  next
    case False
    have "bound_ok s c" using assms by (simp add: relay_inv_def)
    then show ?thesis using False
      by (auto simp: bound_ok_def room_delete_members split: option.splits)
  qed
  then show ?thesis using assms by (simp add: relay_inv_def distinct_room_delete)
qed

lemma relay_inv_clear_tags:
  assumes "relay_inv s" "userRooms s ws = None"
  shows "relay_inv (s\<lparr>ws_roomId := (ws_roomId s)(ws := None), ws_username := (ws_username s)(ws := None)\<rparr>)"
proof -
  have "bound_ok (s\<lparr>ws_roomId := (ws_roomId s)(ws := None), ws_username := (ws_username s)(ws := None)\<rparr>) c" for c
  proof (cases "c = ws")
    case True
    then show ?thesis using assms(2) by (simp add: bound_ok_def)
  next
    case False
    have "bound_ok s c" using assms(1) by (simp add: relay_inv_def)
    then show ?thesis using False by (auto simp: bound_ok_def split: option.splits)
  qed
  then show ?thesis using assms(1) by (simp add: relay_inv_def)
qed

lemma relay_inv_leave_room:
  assumes "relay_inv s"
  shows "relay_inv (state_of (handleLeaveRoom tr ws msg_roomId s))"
proof -
  have "relay_inv
          (let s2 = broadcastToRoom tr r m None ((room_delete r ws s)\<lparr>userRooms := (userRooms s)(ws := None)\<rparr>)
           in s2\<lparr>ws_roomId := (ws_roomId s2)(ws := None), ws_username := (ws_username s2)(ws := None)\<rparr>)"
    for r m
    unfolding Let_def
    by (intro relay_inv_clear_tags relay_inv_broadcast relay_inv_unbind assms)
      (simp add: broadcastToRoom_userRooms)
  then show ?thesis
    using assms
    by (auto simp: handleLeaveRoom_def Let_def ws_send_def split: option.splits)
qed

lemma relay_inv_disconnect:
  assumes "relay_inv s"
  shows "relay_inv (handleUserDisconnect tr ws s)"
  using assms
  by (auto simp: handleUserDisconnect_def Let_def relay_inv_broadcast relay_inv_unbind
      split: option.splits)

lemma reaper_loop_entries:
  "rooms (reaper_loop es s) = filter (\<lambda>e. (fst e, []) \<notin> set es) (rooms s)"
proof (induction es s rule: reaper_loop.induct)
  case (1 s)
  show ?case by simp
next
  case (2 r clients es s)
  show ?case
  proof (cases "clients = []")
    case True
    have "filter (\<lambda>e. (fst e, []) \<notin> set es) (AList.delete r (rooms s))
          = filter (\<lambda>e. (fst e, []) \<notin> set ((r, clients) # es)) (rooms s)"
      using True by (auto simp: AList.delete_eq intro: filter_cong)
    then show ?thesis using True "2.IH" by simp
  next
    case False
    then show ?thesis using "2.IH" by simp
  qed
qed

lemma reaper_members:
  assumes "distinct (map fst (rooms s))"
  shows "members (reaper s) q = members s q"
proof -
  have "((q, []) \<in> set (rooms s)) = (map_of (rooms s) q = Some [])"
    using assms by simp
  then show ?thesis
    by (auto simp: members_def reaper_def reaper_loop_rooms split: option.splits)
qed

lemma relay_inv_reaper:
  assumes "relay_inv s"
  shows "relay_inv (reaper s)"
proof -
  have d: "distinct (map fst (rooms s))" using assms by (simp add: relay_inv_def)
  have "distinct (map fst (rooms (reaper s)))"
    using d by (simp add: reaper_def reaper_loop_entries distinct_map_filter)
  moreover have "bound_ok (reaper s) c" for c
  proof -
    have "bound_ok s c" using assms by (simp add: relay_inv_def)
    moreover have "ws_roomId (reaper s) = ws_roomId s" "userRooms (reaper s) = userRooms s"
      by (simp_all add: reaper_def reaper_loop_other)
    ultimately show ?thesis
      by (simp add: bound_ok_def reaper_members [OF d] split: option.splits)
  qed
  ultimately show ?thesis by (simp add: relay_inv_def)
qed

lemma relay_inv_step:
  assumes "relay_inv s"
  shows "relay_inv (state_of (step tr now ev s))"
proof (cases ev)
  case (Message ws data)
  have h: "relay_inv (state_of (handleMessage tr now ws m s))" for m
    using assms
    by (cases m)
      (simp_all add: relay_inv_create_room relay_inv_join_room relay_inv_chat_message
        relay_inv_leave_room relay_inv_ws_send)
  show ?thesis
  proof (cases data)
    case None
    then show ?thesis using Message assms by (simp add: on_message_def relay_inv_ws_send)
  next
    case (Some m)
    show ?thesis
    proof (cases "handleMessage tr now ws m s")
      case (Returned s')
      then show ?thesis using Message Some h [of m] by (simp add: on_message_def)
    next
      case (Threw s')
      then have "relay_inv s'" using h [of m] by simp
      then show ?thesis using Message Some Threw by (simp add: on_message_def relay_inv_ws_send)
    qed
  qed
next
  case (Close ws)
  then show ?thesis using assms by (simp add: relay_inv_disconnect)
next
  case Sweep
  then show ?thesis using assms by (simp add: relay_inv_reaper)
qed

lemma reachable_relay_inv: "reachable s \<Longrightarrow> relay_inv s"
proof (induction rule: reachable.induct)
  case reachable_init
  show ?case by (rule relay_inv_init)
next
  case (reachable_step s tr now ev s')
  then show ?case using relay_inv_step [of s tr now ev] by simp
qed

text \<open>
  In every reachable state a socket that \<^verbatim>\<open>userRooms\<close> binds to a room is in the member set
  of that room, which exists, and \<^verbatim>\<open>ws.roomId\<close> names the same room. This is the converse
  half of the agreement that claim C1 asks for.
\<close>

lemma reachable_bound_is_member:
  assumes "reachable s" "userRooms s c = Some r"
  shows "c \<in> set (members s r) \<and> rooms_has s r \<and> ws_roomId s c = Some r \<and> r \<noteq> []"
proof -
  have "bound_ok s c" using reachable_relay_inv [OF assms(1)] by (simp add: relay_inv_def)
  then have b: "c \<in> set (members s r)" "ws_roomId s c = Some r" "r \<noteq> []"
    using assms(2) by (simp_all add: bound_ok_def)
  have "rooms_has s r"
  proof (rule ccontr)
    assume "\<not> rooms_has s r"
    then have "members s r = []" by (rule rooms_has_members)
    then show False using b(1) by simp
  qed
  with b show ?thesis by simp
qed

text \<open>The hypothesis of the reaper's theorem holds in every reachable state.\<close>

lemma reachable_distinct_rooms: "reachable s \<Longrightarrow> distinct (map fst (rooms s))"
  using reachable_relay_inv by (simp add: relay_inv_def)

text \<open>
  The part of claim C8 that the code does keep: in a reachable state, the disconnect of a
  bound socket, and its \<^verbatim>\<open>leave_room\<close> that names no room or the room it is bound to,
  clear the binding and take the socket out of the member set of that room.
\<close>

lemma disconnect_clears_binding:
  assumes "reachable s" "userRooms s ws = Some r"
  shows "userRooms (handleUserDisconnect tr ws s) ws = None
       \<and> ws \<notin> set (members (handleUserDisconnect tr ws s) r)"
proof -
  have b: "rooms_has s r" "ws_roomId s ws = Some r" "r \<noteq> []"
    using reachable_bound_is_member [OF assms] by simp_all
  then show ?thesis
    by (simp add: handleUserDisconnect_def Let_def broadcastToRoom_userRooms
        broadcastToRoom_members room_delete_members)
qed

lemma leave_own_room_clears_binding:
  assumes "reachable s" "userRooms s ws = Some r" "falsy msg_roomId \<or> msg_roomId = Some r"
  shows "userRooms (state_of (handleLeaveRoom tr ws msg_roomId s)) ws = None
       \<and> ws \<notin> set (members (state_of (handleLeaveRoom tr ws msg_roomId s)) r)"
proof -
  have b: "rooms_has s r" "ws_roomId s ws = Some r" "r \<noteq> []"
    using reachable_bound_is_member [OF assms(1,2)] by simp_all
  have "(if falsy msg_roomId then ws_roomId s ws else msg_roomId) = Some r"
    using assms(3) b(2) by auto
  then show ?thesis using b
    by (simp add: handleLeaveRoom_def Let_def ws_send_def broadcastToRoom_userRooms
        broadcastToRoom_members room_delete_members)
qed

end
